theory Spec2Isabelle
  imports Main "HOL-Library.Char_ord" "HOL-Library.List_Lexorder" "HOL-Library.Sublist"
    "HOL-Library.Multiset"
begin

section \<open>Strings\<close>

text \<open>
  A JavaScript string is modelled as a \<^typ>\<open>string\<close>: a list of code units, here the
  code units below 256. The character classes and string methods the program uses are
  written out on that range.
\<close>

definition is_digit :: "char \<Rightarrow> bool" where
  \<comment> \<open>the regular expression class \<open>\d\<close>\<close>
  "is_digit c = (c \<in> set ''0123456789'')"

definition is_space :: "char \<Rightarrow> bool" where
  \<comment> \<open>the class \<open>\s\<close>, which is also what \<open>trim\<close> strips: tab, line feed, vertical tab,
     form feed, carriage return, space, no-break space\<close>
  "is_space c = (c \<in> set [CHR 0x09, CHR 0x0A, CHR 0x0B, CHR 0x0C, CHR 0x0D, CHR '' '', CHR 0xA0])"

definition trim :: "string \<Rightarrow> string" where
  \<comment> \<open>\<open>String.prototype.trim\<close>\<close>
  "trim s = rev (dropWhile is_space (rev (dropWhile is_space s)))"

definition lower_char :: "char \<Rightarrow> char" where
  \<comment> \<open>A-Z and the accented capitals 0xC0-0xDE (but not the multiplication sign 0xD7)
     move up by 32\<close>
  "lower_char c =
     (let n = (of_char c :: nat)
      in if (65 \<le> n \<and> n \<le> 90) \<or> (192 \<le> n \<and> n \<le> 222 \<and> n \<noteq> 215)
         then char_of (n + 32) else c)"

definition toLowerCase :: "string \<Rightarrow> string" where
  "toLowerCase s = map lower_char s"

fun starts_with :: "string \<Rightarrow> string \<Rightarrow> bool" where
  "starts_with [] hay = True"
| "starts_with (n # ns) [] = False"
| "starts_with (n # ns) (h # hs) = (n = h \<and> starts_with ns hs)"

fun includes_str :: "string \<Rightarrow> string \<Rightarrow> bool" where
  \<comment> \<open>\<open>hay.includes(needle)\<close>: the needle starts at some position of \<open>hay\<close>\<close>
  "includes_str [] needle = (needle = [])"
| "includes_str (h # hs) needle = (starts_with needle (h # hs) \<or> includes_str hs needle)"

fun replace_class :: "(char \<Rightarrow> bool) \<Rightarrow> string \<Rightarrow> string \<Rightarrow> string" where
  \<comment> \<open>\<open>s.replace(/C/g, rep)\<close> for a one-character class \<open>C\<close>: every character of the
     class is replaced\<close>
  "replace_class P rep [] = []"
| "replace_class P rep (c # cs) = (if P c then rep else [c]) @ replace_class P rep cs"

fun digits :: "nat \<Rightarrow> string" where
  \<comment> \<open>the decimal digits of a natural number\<close>
  "digits n = (if n < 10 then [char_of (48 + n)] else digits (n div 10) @ [char_of (48 + n mod 10)])"

definition number_string :: "int \<Rightarrow> string" where
  \<comment> \<open>an integer inside a template literal\<close>
  "number_string n = (if n < 0 then CHR ''-'' # digits (nat (- n)) else digits (nat n))"

fun join :: "string \<Rightarrow> string list \<Rightarrow> string" where
  \<comment> \<open>\<open>Array.prototype.join\<close>\<close>
  "join sep [] = []"
| "join sep [x] = x"
| "join sep (x # y # ys) = x @ sep @ join sep (y # ys)"

section \<open>Regular expressions\<close>

text \<open>
  The fragment of regular expressions the program uses: a literal character, a character
  class repeated one or more times, and concatenation. \<open>rx_rest r s\<close> lists what is left
  of \<open>s\<close> after each way of matching \<open>r\<close> at its start; \<open>rx_test\<close> is \<open>RegExp.test\<close> for a
  pattern anchored by \<open>^\<close> and \<open>$\<close>.
\<close>

datatype rx = Lit char | Plus "char \<Rightarrow> bool" | Seq rx rx

fun plus_rest :: "(char \<Rightarrow> bool) \<Rightarrow> string \<Rightarrow> string list" where
  "plus_rest P [] = []"
| "plus_rest P (c # cs) = (if P c then cs # plus_rest P cs else [])"

fun rx_rest :: "rx \<Rightarrow> string \<Rightarrow> string list" where
  "rx_rest (Lit a) [] = []"
| "rx_rest (Lit a) (c # cs) = (if c = a then [cs] else [])"
| "rx_rest (Plus P) s = plus_rest P s"
| "rx_rest (Seq r1 r2) s = concat (map (rx_rest r2) (rx_rest r1 s))"

definition rx_test :: "rx \<Rightarrow> string \<Rightarrow> bool" where
  "rx_test r s = ([] \<in> set (rx_rest r s))"

section \<open>Client: validation utilities\<close>

definition not_space_at :: "char \<Rightarrow> bool" where
  \<comment> \<open>the class \<open>[^\s@]\<close>\<close>
  "not_space_at c = (\<not> is_space c \<and> c \<noteq> CHR ''@'')"

definition emailRegex :: rx where
  \<comment> \<open>\<open>/^[^\s@]+@[^\s@]+\.[^\s@]+$/\<close>\<close>
  "emailRegex =
     Seq (Plus not_space_at) (Seq (Lit CHR ''@'')
       (Seq (Plus not_space_at) (Seq (Lit CHR ''.'') (Plus not_space_at))))"

definition validateEmail :: "string \<Rightarrow> bool" where
  "validateEmail email_value = rx_test emailRegex email_value"

definition validatePhone :: "string \<Rightarrow> bool" where
  \<comment> \<open>\<open>phone.replace(/\D/g, '')\<close>, then the length is compared with 10\<close>
  "validatePhone phone_value =
     (let digitsOnly = replace_class (\<lambda>c. \<not> is_digit c) [] phone_value
      in length digitsOnly = 10)"

definition validateRequired :: "string option \<Rightarrow> bool" where
  \<comment> \<open>\<open>value && value.trim().length > 0\<close>, read as a condition; an absent field is
     \<open>None\<close>\<close>
  "validateRequired v =
     (case v of None \<Rightarrow> False | Some s \<Rightarrow> s \<noteq> [] \<and> length (trim s) > 0)"

text \<open>
  A form-data or request-body object is a map from property names to string values. The
  \<open>else\<close> branches of \<open>validateBookingForm\<close> read a field only after \<open>validateRequired\<close>
  has found it present.
\<close>

type_synonym obj = "string \<rightharpoonup> string"

definition validateBookingForm :: "obj \<Rightarrow> obj" where
  "validateBookingForm formData =
     (let errors = Map.empty;
          errors =
            (if \<not> validateRequired (formData ''name'')
             then errors(''name'' \<mapsto> ''Name is required'')
             else if length (trim (the (formData ''name''))) < 2
             then errors(''name'' \<mapsto> ''Name must be at least 2 characters'')
             else errors);
          errors =
            (if \<not> validateRequired (formData ''email'')
             then errors(''email'' \<mapsto> ''Email is required'')
             else if \<not> validateEmail (the (formData ''email''))
             then errors(''email'' \<mapsto> ''Please enter a valid email address'')
             else errors);
          errors =
            (if \<not> validateRequired (formData ''phone'')
             then errors(''phone'' \<mapsto> ''Phone number is required'')
             else if \<not> validatePhone (the (formData ''phone''))
             then errors(''phone'' \<mapsto> ''Please enter exactly 10 digits'')
             else errors);
          errors =
            (if \<not> validateRequired (formData ''date'')
             then errors(''date'' \<mapsto> ''Please select a date'')
             else errors);
          errors =
            (if \<not> validateRequired (formData ''timeSlot'')
             then errors(''timeSlot'' \<mapsto> ''Please select a time slot'')
             else errors)
      in errors)"

text \<open>
  The email rule as the specification words it, for comparison with \<open>emailRegex\<close>: the
  value is trimmed, and the class after the dot admits every character that is not
  whitespace.
\<close>

definition spec_email_pattern :: rx where
  "spec_email_pattern =
     Seq (Plus not_space_at) (Seq (Lit CHR ''@'')
       (Seq (Plus not_space_at) (Seq (Lit CHR ''.'') (Plus (\<lambda>c. \<not> is_space c)))))"

definition spec_email_passes :: "string \<Rightarrow> bool" where
  "spec_email_passes v = rx_test spec_email_pattern (trim v)"

section \<open>Server: the Booking model\<close>

record booking =
  oid :: nat \<comment> \<open>\<open>_id\<close>\<close>
  name :: string
  email :: string
  phone :: string
  date :: string
  timeSlot :: string
  createdAt :: int \<comment> \<open>milliseconds since the epoch\<close>

text \<open>
  The schema is data: for each path its setters and its validators, in the order the
  schema declares them. The functions after it are what the object-document mapper does
  with a schema: setters run when a value is assigned, validators when the document is
  saved, and the first failing validator of a path gives that path's message.
\<close>

datatype setter = Trim | Lowercase

datatype validator =
    Required string
  | Minlength nat string
  | Maxlength nat string
  | Match rx string

record schematype =
  setters :: "setter list"
  validators :: "validator list"

definition bookingSchema :: "(string \<times> schematype) list" where
  "bookingSchema =
     [(''name'', \<lparr>setters = [Trim],
         validators = [Required ''Name is required'',
                       Minlength 2 ''Name must be at least 2 characters'',
                       Maxlength 100 ''Name cannot exceed 100 characters'']\<rparr>),
      (''email'', \<lparr>setters = [Trim, Lowercase],
         validators = [Required ''Email is required'',
                       Match emailRegex ''Please provide a valid email address'']\<rparr>),
      (''phone'', \<lparr>setters = [Trim],
         validators = [Required ''Phone number is required'',
                       Minlength 10 ''Phone number must be at least 10 digits'']\<rparr>),
      (''date'', \<lparr>setters = [], validators = [Required ''Appointment date is required'']\<rparr>),
      (''timeSlot'', \<lparr>setters = [], validators = [Required ''Time slot is required'']\<rparr>)]"

fun apply_setter :: "setter \<Rightarrow> string \<Rightarrow> string" where
  "apply_setter Trim s = trim s"
| "apply_setter Lowercase s = toLowerCase s"

definition set_path :: "string \<Rightarrow> string \<Rightarrow> string" where
  "set_path p v =
     (case map_of bookingSchema p of
        None \<Rightarrow> v
      | Some t \<Rightarrow> fold apply_setter (setters t) v)"

fun check :: "validator \<Rightarrow> string \<Rightarrow> string option" where
  "check (Required msg) v = (if v = [] then Some msg else None)"
| "check (Minlength n msg) v = (if length v \<ge> n then None else Some msg)"
| "check (Maxlength n msg) v = (if length v \<le> n then None else Some msg)"
| "check (Match r msg) v = (if v \<noteq> [] then (if rx_test r v then None else Some msg) else None)"

fun doValidate :: "validator list \<Rightarrow> string \<Rightarrow> string option" where
  "doValidate [] v = None"
| "doValidate (c # cs) v = (case check c v of Some msg \<Rightarrow> Some msg | None \<Rightarrow> doValidate cs v)"

definition get_path :: "string \<Rightarrow> booking \<Rightarrow> string" where
  "get_path p doc =
     (if p = ''name'' then name doc else if p = ''email'' then email doc
      else if p = ''phone'' then phone doc else if p = ''date'' then date doc
      else timeSlot doc)"

definition validate :: "booking \<Rightarrow> string list" where
  \<comment> \<open>the messages of \<open>error.errors\<close>, one for each failing path\<close>
  "validate doc =
     concat (map (\<lambda>(p, t). case doValidate (validators t) (get_path p doc) of
                              None \<Rightarrow> [] | Some msg \<Rightarrow> [msg]) bookingSchema)"

definition path_message :: "string \<Rightarrow> string \<Rightarrow> string option" where
  \<comment> \<open>what assigning \<open>v\<close> to the path \<open>p\<close> of a new document and saving it reports for
     that path\<close>
  "path_message p v =
     (case map_of bookingSchema p of
        None \<Rightarrow> None
      | Some t \<Rightarrow> doValidate (validators t) (set_path p v))"

text \<open>
  The collection: its documents in insertion order, the next identifier the driver
  hands out, and whether the database can be reached. An awaited call either resolves
  with a value or rejects with an error.
\<close>

record store =
  docs :: "booking list"
  next_id :: nat
  up :: bool

datatype db_error = ValidationError "string list" | CastError | StoreError

datatype 'a awaited = Resolved 'a | Rejected db_error

definition new_Booking :: "nat \<Rightarrow> int \<Rightarrow> obj \<Rightarrow> booking" where
  \<comment> \<open>\<open>new Booking({name, email, phone, date, timeSlot})\<close>: the setters run, and
     \<open>createdAt\<close> takes its default \<open>Date.now\<close>; the route has checked that the five
     fields are present\<close>
  "new_Booking fresh now body =
     \<lparr>oid = fresh,
      name = set_path ''name'' (the (body ''name'')),
      email = set_path ''email'' (the (body ''email'')),
      phone = set_path ''phone'' (the (body ''phone'')),
      date = set_path ''date'' (the (body ''date'')),
      timeSlot = set_path ''timeSlot'' (the (body ''timeSlot'')),
      createdAt = now\<rparr>"

definition save :: "booking \<Rightarrow> store \<Rightarrow> (booking \<times> store) awaited" where
  "save doc st =
     (case validate doc of
        m # ms \<Rightarrow> Rejected (ValidationError (m # ms))
      | [] \<Rightarrow>
          if \<not> up st then Rejected StoreError
          else Resolved (doc, st\<lparr>docs := docs st @ [doc], next_id := Suc (next_id st)\<rparr>))"

definition find_sorted :: "store \<Rightarrow> booking list awaited" where
  \<comment> \<open>\<open>Booking.find().sort({ createdAt: -1 })\<close>\<close>
  "find_sorted st =
     (if \<not> up st then Rejected StoreError
      else Resolved (sort_key (\<lambda>b. - createdAt b) (docs st)))"

fun delete_first :: "nat \<Rightarrow> booking list \<Rightarrow> booking option \<times> booking list" where
  "delete_first i [] = (None, [])"
| "delete_first i (b # bs) =
     (if oid b = i then (Some b, bs)
      else (case delete_first i bs of (found, rest) \<Rightarrow> (found, b # rest)))"

text \<open>
  An identifier reaches the route as a string, the \<open>:id\<close> part of the path, and the
  model casts it before it queries: a string of 24 hexadecimal digits is the identifier
  with that number, and for any other string the call rejects with a cast error. (Some
  versions of the library also read a string of 12 characters as an identifier; nothing
  proved here is about such a string.)
\<close>

definition hex_value :: "char \<Rightarrow> nat option" where
  "hex_value c =
     (if c \<in> set ''0123456789'' then Some (of_char c - 48)
      else if c \<in> set ''abcdef'' then Some (of_char c - 87)
      else if c \<in> set ''ABCDEF'' then Some (of_char c - 55)
      else None)"

fun hex_number :: "nat \<Rightarrow> string \<Rightarrow> nat option" where
  "hex_number acc [] = Some acc"
| "hex_number acc (c # cs) =
     (case hex_value c of None \<Rightarrow> None | Some v \<Rightarrow> hex_number (16 * acc + v) cs)"

definition castObjectId :: "string \<Rightarrow> nat option" where
  "castObjectId s = (if length s = 24 then hex_number 0 s else None)"

definition findByIdAndDelete :: "string \<Rightarrow> store \<Rightarrow> (booking option \<times> store) awaited" where
  "findByIdAndDelete i st =
     (case castObjectId i of
        None \<Rightarrow> Rejected CastError
      | Some k \<Rightarrow>
          if \<not> up st then Rejected StoreError
          else (case delete_first k (docs st) of
                  (found, rest) \<Rightarrow> Resolved (found, st\<lparr>docs := rest\<rparr>)))"

section \<open>Server: the bookings routes\<close>

datatype payload = Doc booking | Docs "booking list"

record response =
  status :: nat
  success :: bool
  message :: "string option"
  count_field :: "nat option" \<comment> \<open>\<open>count\<close>\<close>
  data :: "payload option"

definition falsy :: "string option \<Rightarrow> bool" where
  \<comment> \<open>\<open>!v\<close> for an absent or string value\<close>
  "falsy v = (case v of None \<Rightarrow> True | Some s \<Rightarrow> s = [])"

definition server_error :: response where
  "server_error =
     \<lparr>status = 500, success = False,
      message = Some ''Server error. Please try again later.'',
      count_field = None, data = None\<rparr>"

definition router_post :: "int \<Rightarrow> obj \<Rightarrow> store \<Rightarrow> response \<times> store" where
  \<comment> \<open>\<open>POST /api/bookings\<close>; \<open>now\<close> is what \<open>Date.now\<close> returns\<close>
  "router_post now body st =
     (if falsy (body ''name'') \<or> falsy (body ''email'') \<or> falsy (body ''phone'')
         \<or> falsy (body ''date'') \<or> falsy (body ''timeSlot'')
      then (\<lparr>status = 400, success = False, message = Some ''All fields are required'',
             count_field = None, data = None\<rparr>, st)
      else
        (let newBooking = new_Booking (next_id st) now body
         in case save newBooking st of
              Resolved (savedBooking, st') \<Rightarrow>
                (\<lparr>status = 201, success = True,
                  message = Some ''Booking created successfully'',
                  count_field = None, data = Some (Doc savedBooking)\<rparr>, st')
            | Rejected (ValidationError messages) \<Rightarrow>
                (\<lparr>status = 400, success = False, message = Some (join '', '' messages),
                  count_field = None, data = None\<rparr>, st)
            | Rejected other \<Rightarrow> (server_error, st)))"

definition router_get :: "store \<Rightarrow> response" where
  \<comment> \<open>\<open>GET /api/bookings\<close>\<close>
  "router_get st =
     (case find_sorted st of
        Resolved bookings \<Rightarrow>
          \<lparr>status = 200, success = True, message = None,
           count_field = Some (length bookings), data = Some (Docs bookings)\<rparr>
      | Rejected e \<Rightarrow> server_error)"

definition router_delete :: "string \<Rightarrow> store \<Rightarrow> response \<times> store" where
  \<comment> \<open>\<open>DELETE /api/bookings/:id\<close>; \<open>i\<close> is \<open>req.params.id\<close>\<close>
  "router_delete i st =
     (case findByIdAndDelete i st of
        Resolved (deletedBooking, st') \<Rightarrow>
          (case deletedBooking of
             None \<Rightarrow>
               (\<lparr>status = 404, success = False, message = Some ''Booking not found'',
                 count_field = None, data = None\<rparr>, st')
           | Some b \<Rightarrow>
               (\<lparr>status = 200, success = True,
                 message = Some ''Booking deleted successfully'',
                 count_field = None, data = None\<rparr>, st'))
      | Rejected e \<Rightarrow> (server_error, st))"

section \<open>Server: the spreadsheet export\<close>

text \<open>
  A worksheet is its rows, a row its cells in column order. Adding a row from an object
  puts under each column the object's value for the column's key. The formatting of a
  creation time (\<open>toLocaleString\<close> for the locale en-IN, in the time zone of the host)
  is a parameter. The route reads the clock twice: \<open>new Date()\<close> for the workbook's
  \<open>created\<close> property and \<open>Date.now()\<close> for the file name; both readings are
  parameters of the route. The fonts, fills, borders and widths the route sets depend on
  the row numbers only and are left out.
\<close>

datatype cell = Num nat | Str string

record column =
  header :: string
  key :: string
  width :: nat

definition columns :: "column list" where
  "columns =
     [\<lparr>header = ''S.No'', key = ''sno'', width = 8\<rparr>,
      \<lparr>header = ''Name'', key = ''name'', width = 25\<rparr>,
      \<lparr>header = ''Email'', key = ''email'', width = 30\<rparr>,
      \<lparr>header = ''Phone'', key = ''phone'', width = 15\<rparr>,
      \<lparr>header = ''Date'', key = ''date'', width = 20\<rparr>,
      \<lparr>header = ''Time Slot'', key = ''timeSlot'', width = 20\<rparr>,
      \<lparr>header = ''Booked On'', key = ''createdAt'', width = 22\<rparr>]"

type_synonym row = "cell option list"

definition header_row :: "column list \<Rightarrow> row" where
  "header_row cols = map (\<lambda>c. Some (Str (header c))) cols"

definition addRow :: "column list \<Rightarrow> (string \<rightharpoonup> cell) \<Rightarrow> row" where
  "addRow cols values = map (\<lambda>c. values (key c)) cols"

definition row_values :: "(int \<Rightarrow> string) \<Rightarrow> nat \<Rightarrow> booking \<Rightarrow> (string \<rightharpoonup> cell)" where
  "row_values toLocaleString index b =
     [''sno'' \<mapsto> Num (index + 1),
      ''name'' \<mapsto> Str (name b),
      ''email'' \<mapsto> Str (email b),
      ''phone'' \<mapsto> Str (phone b),
      ''date'' \<mapsto> Str (date b),
      ''timeSlot'' \<mapsto> Str (timeSlot b),
      ''createdAt'' \<mapsto> Str (toLocaleString (createdAt b))]"

fun forEach_addRow :: "(int \<Rightarrow> string) \<Rightarrow> row list \<Rightarrow> nat \<Rightarrow> booking list \<Rightarrow> row list" where
  \<comment> \<open>\<open>bookings.forEach((booking, index) => worksheet.addRow(...))\<close>, from \<open>index\<close> on\<close>
  "forEach_addRow toLocaleString rows index [] = rows"
| "forEach_addRow toLocaleString rows index (b # bs) =
     forEach_addRow toLocaleString
       (rows @ [addRow columns (row_values toLocaleString index b)]) (index + 1) bs"

definition worksheet :: "(int \<Rightarrow> string) \<Rightarrow> booking list \<Rightarrow> row list" where
  "worksheet toLocaleString bookings =
     forEach_addRow toLocaleString [header_row columns] 0 bookings"

record workbook =
  creator :: string
  created :: int
  sheet_name :: string
  sheet_rows :: "row list"

record download =
  content_type :: string
  content_disposition :: string
  attachment :: workbook

definition router_export ::
  "(int \<Rightarrow> string) \<Rightarrow> int \<Rightarrow> int \<Rightarrow> store \<Rightarrow> response + download" where
  \<comment> \<open>\<open>GET /api/bookings/export\<close>\<close>
  "router_export toLocaleString new_Date Date_now st =
     (case find_sorted st of
        Resolved bookings \<Rightarrow>
          Inr \<lparr>content_type =
                 ''application/vnd.openxmlformats-officedocument.spreadsheetml.sheet'',
               content_disposition =
                 ''attachment; filename=bookings_'' @ number_string Date_now @ ''.xlsx'',
               attachment =
                 \<lparr>creator = ''Appointment Booking System'', created = new_Date,
                  sheet_name = ''Bookings'',
                  sheet_rows = worksheet toLocaleString bookings\<rparr>\<rparr>
      | Rejected e \<Rightarrow>
          Inl \<lparr>status = 500, success = False,
               message = Some ''Error exporting data. Please try again.'',
               count_field = None, data = None\<rparr>)"

section \<open>Client: the bookings table\<close>

definition filteredBookings :: "booking list \<Rightarrow> string option \<Rightarrow> booking list" where
  "filteredBookings bookings searchTerm =
     (if falsy searchTerm then bookings
      else
        (let needle = the searchTerm; lowerSearch = toLowerCase needle
         in filter (\<lambda>b.
               includes_str (toLowerCase (name b)) lowerSearch \<or>
               includes_str (toLowerCase (email b)) lowerSearch \<or>
               includes_str (phone b) needle \<or>
               includes_str (toLowerCase (date b)) lowerSearch \<or>
               includes_str (toLowerCase (timeSlot b)) lowerSearch) bookings))"

datatype sort_field = CreatedAt | Name | Date

datatype direction = Asc | Desc

record sortConfig =
  field :: sort_field
  direction :: direction

fun value_less :: "sort_field \<Rightarrow> booking \<Rightarrow> booking \<Rightarrow> bool" where
  \<comment> \<open>\<open>aValue < bValue\<close>: creation times as dates, the other fields as lowercased
     strings, which JavaScript compares code unit by code unit\<close>
  "value_less CreatedAt a b = (createdAt a < createdAt b)"
| "value_less Name a b = (toLowerCase (name a) < toLowerCase (name b))"
| "value_less Date a b = (toLowerCase (date a) < toLowerCase (date b))"

definition compare :: "sortConfig \<Rightarrow> booking \<Rightarrow> booking \<Rightarrow> int" where
  "compare cfg a b =
     (if value_less (field cfg) a b then (if direction cfg = Asc then - 1 else 1)
      else if value_less (field cfg) b a then (if direction cfg = Asc then 1 else - 1)
      else 0)"

text \<open>
  \<open>Array.prototype.sort\<close> is a stable sort by the comparator: an element goes before the
  first element of the sorted rest that it does not compare greater than.
\<close>

fun insert_by :: "('a \<Rightarrow> 'a \<Rightarrow> int) \<Rightarrow> 'a \<Rightarrow> 'a list \<Rightarrow> 'a list" where
  "insert_by cmp x [] = [x]"
| "insert_by cmp x (y # ys) = (if cmp x y \<le> 0 then x # y # ys else y # insert_by cmp x ys)"

definition array_sort :: "('a \<Rightarrow> 'a \<Rightarrow> int) \<Rightarrow> 'a list \<Rightarrow> 'a list" where
  "array_sort cmp xs = foldr (insert_by cmp) xs []"

definition sortedBookings :: "sortConfig \<Rightarrow> booking list \<Rightarrow> booking list" where
  "sortedBookings cfg filtered = (let sorted_copy = filtered in array_sort (compare cfg) sorted_copy)"

section \<open>Characters and strings\<close>

lemma char_eq_code: "(c = d) = ((of_char c :: nat) = of_char d)"
  by (metis char_of_char)

lemma is_space_code: "is_space c \<longleftrightarrow> (of_char c :: nat) \<in> {9, 10, 11, 12, 13, 32, 160}"
  unfolding is_space_def by (simp add: char_eq_code)

lemma lower_char_code:
  "(of_char (lower_char c) :: nat) =
     (let n = of_char c
      in if (65 \<le> n \<and> n \<le> 90) \<or> (192 \<le> n \<and> n \<le> 222 \<and> n \<noteq> 215) then n + 32 else n)"
  unfolding lower_char_def Let_def by (auto simp: of_char_of)

lemma lower_char_space: "is_space (lower_char c) = is_space c"
  unfolding is_space_code lower_char_code Let_def by auto

lemma lower_char_at: "(lower_char c = CHR ''@'') = (c = CHR ''@'')"
  unfolding char_eq_code[of _ "CHR ''@''"] lower_char_code Let_def by auto

lemma lower_char_dot: "(lower_char c = CHR ''.'') = (c = CHR ''.'')"
  unfolding char_eq_code[of _ "CHR ''.''"] lower_char_code Let_def by auto

lemma not_space_at_lower: "not_space_at (lower_char c) = not_space_at c"
  by (simp add: not_space_at_def lower_char_space lower_char_at)

lemma list_all_lower: "list_all not_space_at (map lower_char s) = list_all not_space_at s"
  by (induction s) (simp_all add: not_space_at_lower)

lemma trim_middle: "\<exists>a b. s = a @ trim s @ b \<and> list_all is_space a"
proof -
  let ?u = "dropWhile is_space s"
  have "s = takeWhile is_space s @ ?u" by simp
  moreover have "rev ?u = takeWhile is_space (rev ?u) @ dropWhile is_space (rev ?u)" by simp
  then have "?u = trim s @ rev (takeWhile is_space (rev ?u))"
    unfolding trim_def by (metis rev_append rev_rev_ident)
  moreover have "list_all is_space (takeWhile is_space s)"
    by (simp add: list_all_iff) (meson set_takeWhileD)
  ultimately show ?thesis by metis
qed

lemma replace_class_strip: "replace_class P [] s = filter (\<lambda>c. \<not> P c) s"
  by (induction s) auto

section \<open>The regular expression matcher\<close>

lemma plus_rest_set: "set (plus_rest P s) = {t. \<exists>p. s = p @ t \<and> p \<noteq> [] \<and> list_all P p}"
proof (induction s)
  case Nil
  then show ?case by simp
next
  case (Cons c cs)
  show ?case
  proof (cases "P c")
    case True
    have "{t. \<exists>p. c # cs = p @ t \<and> p \<noteq> [] \<and> list_all P p}
        = insert cs {t. \<exists>p. cs = p @ t \<and> p \<noteq> [] \<and> list_all P p}" (is "?L = ?R")
    proof (intro set_eqI iffI)
      fix t assume "t \<in> ?L"
      then obtain p where p: "c # cs = p @ t" "p \<noteq> []" "list_all P p" by blast
      then obtain q where q: "p = c # q" "cs = q @ t" by (cases p) auto
      show "t \<in> ?R"
      proof (cases q)
        case Nil
        then show ?thesis using q by simp
      next
        case (Cons a as)
        then show ?thesis using q p by auto
      qed
    next
      fix t assume "t \<in> ?R"
      then consider "t = cs" | p where "cs = p @ t" "p \<noteq> []" "list_all P p" by blast
      then show "t \<in> ?L"
      proof cases
        case 1
        then have "c # cs = [c] @ t \<and> [c] \<noteq> [] \<and> list_all P [c]" using True by simp
        then show ?thesis by blast
      next
        case 2
        then have "c # cs = (c # p) @ t \<and> c # p \<noteq> [] \<and> list_all P (c # p)"
          using True by simp
        then show ?thesis by blast
      qed
    qed
    then show ?thesis using True Cons.IH by simp
  next
    case False
    have "{t. \<exists>p. c # cs = p @ t \<and> p \<noteq> [] \<and> list_all P p} = {}"
    proof -
      { fix t p assume p: "c # cs = p @ t" "p \<noteq> []" "list_all P p"
        with False have False by (cases p) auto }
      then show ?thesis by blast
    qed
    then show ?thesis using False by simp
  qed
qed

lemma lit_rest_set: "set (rx_rest (Lit a) s) = {t. s = a # t}"
  by (cases s) auto

lemma seq_rest_set:
  "set (rx_rest (Seq r1 r2) s) = (\<Union>u \<in> set (rx_rest r1 s). set (rx_rest r2 u))"
  by simp

lemma emailRegex_shape:
  "rx_test emailRegex s \<longleftrightarrow>
     (\<exists>l d t. s = l @ ''@'' @ d @ ''.'' @ t \<and> l \<noteq> [] \<and> d \<noteq> [] \<and> t \<noteq> []
        \<and> list_all not_space_at (l @ d @ t))"
  unfolding rx_test_def emailRegex_def seq_rest_set
  apply (simp only: rx_rest.simps(3) plus_rest_set lit_rest_set)
  apply auto
  done

lemma emailRegex_lower: "rx_test emailRegex (toLowerCase s) = rx_test emailRegex s"
proof
  assume "rx_test emailRegex s"
  then obtain l d t where s: "s = l @ ''@'' @ d @ ''.'' @ t" "l \<noteq> []" "d \<noteq> []" "t \<noteq> []"
      "list_all not_space_at (l @ d @ t)"
    unfolding emailRegex_shape by blast
  have at: "lower_char CHR ''@'' = CHR ''@''" and dot: "lower_char CHR ''.'' = CHR ''.''"
    by (simp_all add: lower_char_at lower_char_dot)
  have "toLowerCase s = map lower_char l @ ''@'' @ map lower_char d @ ''.'' @ map lower_char t"
    using s(1) at dot by (simp add: toLowerCase_def)
  moreover have "list_all not_space_at (map lower_char l @ map lower_char d @ map lower_char t)"
    using s(5) list_all_lower[of "l @ d @ t"] by simp
  ultimately show "rx_test emailRegex (toLowerCase s)"
    unfolding emailRegex_shape using s(2-4) by (metis map_is_Nil_conv)
next
  assume "rx_test emailRegex (toLowerCase s)"
  then obtain l d t where s: "map lower_char s = l @ CHR ''@'' # d @ CHR ''.'' # t"
      "l \<noteq> []" "d \<noteq> []" "t \<noteq> []" "list_all not_space_at (l @ d @ t)"
    unfolding emailRegex_shape toLowerCase_def by auto
  from s(1) obtain l0 r0 where r0: "s = l0 @ r0" "map lower_char l0 = l"
      "map lower_char r0 = CHR ''@'' # d @ CHR ''.'' # t"
    by (auto simp: map_eq_append_conv)
  from r0(3) obtain a r1 where r1: "r0 = a # r1" "lower_char a = CHR ''@''"
      "map lower_char r1 = d @ CHR ''.'' # t"
    by (auto simp: map_eq_Cons_conv)
  from r1(3) obtain d0 r2 where r2: "r1 = d0 @ r2" "map lower_char d0 = d"
      "map lower_char r2 = CHR ''.'' # t"
    by (auto simp: map_eq_append_conv)
  from r2(3) obtain b t0 where t0: "r2 = b # t0" "lower_char b = CHR ''.''"
      "map lower_char t0 = t"
    by (auto simp: map_eq_Cons_conv)
  have "s = l0 @ ''@'' @ d0 @ ''.'' @ t0"
    using r0 r1 r2 t0 by (simp add: lower_char_at lower_char_dot)
  moreover have "list_all not_space_at (l0 @ d0 @ t0)"
    using s(5) r0(2) r2(2) t0(3) list_all_lower[of "l0 @ d0 @ t0"] by simp
  moreover have "l0 \<noteq> []" "d0 \<noteq> []" "t0 \<noteq> []"
    using s(2-4) r0(2) r2(2) t0(3) by auto
  ultimately show "rx_test emailRegex s" unfolding emailRegex_shape by blast
qed

lemma emailRegex_nonempty: "rx_test emailRegex s \<Longrightarrow> s \<noteq> []"
  by (auto simp: emailRegex_shape)

lemma emailRegex_needs_dot_after_at:
  assumes "rx_test emailRegex s"
  shows "CHR ''.'' \<in> set (dropWhile (\<lambda>c. c \<noteq> CHR ''@'') s)"
proof -
  from assms obtain l d t where s: "s = l @ ''@'' @ d @ ''.'' @ t"
      "list_all not_space_at (l @ d @ t)"
    unfolding emailRegex_shape by blast
  have "\<forall>c \<in> set l. c \<noteq> CHR ''@''"
    using s(2) by (auto simp: list_all_iff not_space_at_def)
  then have "dropWhile (\<lambda>c. c \<noteq> CHR ''@'') s = ''@'' @ d @ ''.'' @ t"
    using s(1) by (simp add: dropWhile_append3)
  then show ?thesis by simp
qed

lemma toLowerCase_Nil: "(toLowerCase s = []) = (s = [])"
  by (simp add: toLowerCase_def)

lemma email_path_message_trim:
  "path_message ''email'' v = None \<longleftrightarrow> rx_test emailRegex (trim v)"
  using emailRegex_nonempty[of "trim v"]
  by (auto simp: path_message_def bookingSchema_def set_path_def emailRegex_lower
      toLowerCase_Nil)

lemma no_at_dropWhile: "CHR ''@'' \<notin> set v \<Longrightarrow> dropWhile (\<lambda>c. c \<noteq> CHR ''@'') v = []"
  by auto

lemma trim_no_at: "CHR ''@'' \<notin> set v \<Longrightarrow> CHR ''@'' \<notin> set (trim v)"
  using trim_middle[of v] by (metis Un_iff set_append)

lemma trim_after_at:
  assumes "CHR ''.'' \<notin> set (dropWhile (\<lambda>c. c \<noteq> CHR ''@'') v)"
  shows "CHR ''.'' \<notin> set (dropWhile (\<lambda>c. c \<noteq> CHR ''@'') (trim v))"
proof (cases "CHR ''@'' \<in> set (trim v)")
  case False
  then show ?thesis by (simp add: no_at_dropWhile)
next
  case True
  obtain a b where ab: "v = a @ trim v @ b" "list_all is_space a"
    using trim_middle[of v] by blast
  have "\<forall>c \<in> set a. c \<noteq> CHR ''@''"
    using ab(2) by (auto simp: list_all_iff is_space_def)
  then have "dropWhile (\<lambda>c. c \<noteq> CHR ''@'') (a @ trim v @ b)
      = dropWhile (\<lambda>c. c \<noteq> CHR ''@'') (trim v @ b)"
    by (simp add: dropWhile_append2)
  also have "\<dots> = dropWhile (\<lambda>c. c \<noteq> CHR ''@'') (trim v) @ b"
    using True by (simp add: dropWhile_append1)
  finally show ?thesis using assms ab(1) by (metis Un_iff set_append)
qed

section \<open>The validation rules\<close>

text \<open>
  C2. \<open>validatePhone\<close> passes exactly when the value has ten digit characters, which is
  the length of what is left after every non-digit is stripped. Characters that are not
  digits, wherever they are inserted, do not change the result. The three examples:
  \<open>987-654-3210\<close> passes, \<open>98765432\<close> and \<open>987654321012\<close> fail.
\<close>

theorem validatePhone_ten_digits:
  "(validatePhone v \<longleftrightarrow> length (filter is_digit v) = 10)
   \<and> validatePhone (u @ filter (\<lambda>c. \<not> is_digit c) f @ w) = validatePhone (u @ w)
   \<and> validatePhone ''987-654-3210''
   \<and> \<not> validatePhone ''98765432''
   \<and> \<not> validatePhone ''987654321012''"
proof -
  have iff: "\<And>s. validatePhone s \<longleftrightarrow> length (filter is_digit s) = 10"
    by (simp add: validatePhone_def replace_class_strip)
  have "filter is_digit (filter (\<lambda>c. \<not> is_digit c) f) = []"
    by (induction f) auto
  then have "validatePhone (u @ filter (\<lambda>c. \<not> is_digit c) f @ w) = validatePhone (u @ w)"
    by (simp add: iff)
  moreover have "validatePhone ''987-654-3210''" "\<not> validatePhone ''98765432''"
    "\<not> validatePhone ''987654321012''"
    by (simp_all add: iff is_digit_def)
  ultimately show ?thesis using iff by blast
qed

text \<open>
  C3, as stated, fails on the code. The specification's pattern lets an \<open>@\<close> stand after
  the dot and is applied to the trimmed value: \<open>a@b.c@d\<close> matches it, yet \<open>validateEmail\<close>
  and the schema both reject that value; and \<open>validateEmail\<close> tests the value as it is
  given, so a value with a leading space fails although its trimmed form matches.
\<close>

theorem email_claim_counterexample:
  "spec_email_passes ''a@b.c@d'' \<and> \<not> validateEmail ''a@b.c@d''
   \<and> path_message ''email'' ''a@b.c@d'' \<noteq> None
   \<and> spec_email_passes '' a@b.co'' \<and> \<not> validateEmail '' a@b.co''"
  by code_simp

text \<open>
  C3, amended. \<open>validateEmail\<close> passes exactly when the value itself is: one or more
  characters that are neither whitespace nor \<open>@\<close>, an \<open>@\<close>, one or more such characters, a
  dot, one or more such characters. The schema's check of the email path passes exactly
  when the trimmed value passes \<open>validateEmail\<close>. A value with no \<open>@\<close>, or with no dot
  after its first \<open>@\<close>, fails both.
\<close>

theorem validateEmail_pattern:
  "(validateEmail v \<longleftrightarrow>
      (\<exists>l d t. v = l @ ''@'' @ d @ ''.'' @ t \<and> l \<noteq> [] \<and> d \<noteq> [] \<and> t \<noteq> []
         \<and> list_all not_space_at (l @ d @ t)))
   \<and> (path_message ''email'' v = None \<longleftrightarrow> validateEmail (trim v))
   \<and> (CHR ''@'' \<notin> set v \<longrightarrow> \<not> validateEmail v \<and> \<not> validateEmail (trim v))
   \<and> (CHR ''.'' \<notin> set (dropWhile (\<lambda>c. c \<noteq> CHR ''@'') v)
        \<longrightarrow> \<not> validateEmail v \<and> \<not> validateEmail (trim v))"
proof -
  have shape: "validateEmail v \<longleftrightarrow>
      (\<exists>l d t. v = l @ ''@'' @ d @ ''.'' @ t \<and> l \<noteq> [] \<and> d \<noteq> [] \<and> t \<noteq> []
         \<and> list_all not_space_at (l @ d @ t))"
    unfolding validateEmail_def by (rule emailRegex_shape)
  have server: "path_message ''email'' v = None \<longleftrightarrow> validateEmail (trim v)"
    unfolding validateEmail_def by (rule email_path_message_trim)
  have dot: "\<not> validateEmail v \<and> \<not> validateEmail (trim v)"
    if h: "CHR ''.'' \<notin> set (dropWhile (\<lambda>c. c \<noteq> CHR ''@'') v)"
  proof -
    have "\<not> rx_test emailRegex v"
      using emailRegex_needs_dot_after_at[of v] h by blast
    moreover have "\<not> rx_test emailRegex (trim v)"
      using emailRegex_needs_dot_after_at[of "trim v"] trim_after_at[OF h] by blast
    ultimately show ?thesis by (simp add: validateEmail_def)
  qed
  have at: "\<not> validateEmail v \<and> \<not> validateEmail (trim v)" if a: "CHR ''@'' \<notin> set v"
  proof -
    have "dropWhile (\<lambda>c. c \<noteq> CHR ''@'') v = []" by (rule no_at_dropWhile[OF a])
    then have "CHR ''.'' \<notin> set (dropWhile (\<lambda>c. c \<noteq> CHR ''@'') v)" by (simp only: set_simps empty_iff not_False_eq_True)
    then show ?thesis by (rule dot)
  qed
  show ?thesis
    apply (rule conjI[OF shape])
    apply (rule conjI[OF server])
    using at dot by blast
qed


text \<open>The amended C3 at values without an \<open>@\<close> and without a dot after the \<open>@\<close>.\<close>

theorem validateEmail_pattern_witness:
  "CHR ''@'' \<notin> set ''john.example.com'' \<and> \<not> validateEmail ''john.example.com''
   \<and> CHR ''.'' \<notin> set (dropWhile (\<lambda>c. c \<noteq> CHR ''@'') ''john.doe@example'')
   \<and> \<not> validateEmail ''john.doe@example''
   \<and> validateEmail ''john@example.com''"
proof -
  have a: "CHR ''@'' \<notin> set ''john.example.com''" by simp
  have b: "CHR ''.'' \<notin> set (dropWhile (\<lambda>c. c \<noteq> CHR ''@'') ''john.doe@example'')" by simp
  have c: "validateEmail ''john@example.com''" by code_simp
  have a': "\<not> validateEmail ''john.example.com''"
    using validateEmail_pattern[of "''john.example.com''"] a by blast
  have b': "\<not> validateEmail ''john.doe@example''"
    using validateEmail_pattern[of "''john.doe@example''"] b by blast
  show ?thesis using a a' b b' c by blast
qed

lemma if_app: "(if c then f else g) x = (if c then f x else g x)" by simp

text \<open>
  C4. \<open>validateBookingForm\<close> decides each of the five fields by its own rule, whatever
  the other fields hold: the entry under a field's key is that field's message when the
  field fails and is absent otherwise, and no other key is ever set. When the email is
  missing and the other four fields are valid, the only key is \<open>email\<close>. The function is
  a function of the form data alone.
\<close>

theorem validateBookingForm_failing_fields:
  "validateBookingForm fd ''name'' =
     (if \<not> validateRequired (fd ''name'') then Some ''Name is required''
      else if length (trim (the (fd ''name''))) < 2 then Some ''Name must be at least 2 characters''
      else None)
   \<and> validateBookingForm fd ''email'' =
     (if \<not> validateRequired (fd ''email'') then Some ''Email is required''
      else if \<not> validateEmail (the (fd ''email'')) then Some ''Please enter a valid email address''
      else None)
   \<and> validateBookingForm fd ''phone'' =
     (if \<not> validateRequired (fd ''phone'') then Some ''Phone number is required''
      else if \<not> validatePhone (the (fd ''phone'')) then Some ''Please enter exactly 10 digits''
      else None)
   \<and> validateBookingForm fd ''date'' =
     (if \<not> validateRequired (fd ''date'') then Some ''Please select a date'' else None)
   \<and> validateBookingForm fd ''timeSlot'' =
     (if \<not> validateRequired (fd ''timeSlot'') then Some ''Please select a time slot'' else None)
   \<and> dom (validateBookingForm fd) \<subseteq> {''name'', ''email'', ''phone'', ''date'', ''timeSlot''}
   \<and> (\<not> validateRequired (fd ''email'')
        \<and> validateRequired (fd ''name'') \<and> 2 \<le> length (trim (the (fd ''name'')))
        \<and> validateRequired (fd ''phone'') \<and> validatePhone (the (fd ''phone''))
        \<and> validateRequired (fd ''date'') \<and> validateRequired (fd ''timeSlot'')
      \<longrightarrow> dom (validateBookingForm fd) = {''email''}
          \<and> validateBookingForm fd ''email'' = Some ''Email is required'')"
proof -
  have n: "validateBookingForm fd ''name'' =
     (if \<not> validateRequired (fd ''name'') then Some ''Name is required''
      else if length (trim (the (fd ''name''))) < 2 then Some ''Name must be at least 2 characters''
      else None)"
    by (simp add: validateBookingForm_def Let_def if_app split del: if_split cong: if_cong)
  have e: "validateBookingForm fd ''email'' =
     (if \<not> validateRequired (fd ''email'') then Some ''Email is required''
      else if \<not> validateEmail (the (fd ''email'')) then Some ''Please enter a valid email address''
      else None)"
    by (simp add: validateBookingForm_def Let_def if_app split del: if_split cong: if_cong)
  have p: "validateBookingForm fd ''phone'' =
     (if \<not> validateRequired (fd ''phone'') then Some ''Phone number is required''
      else if \<not> validatePhone (the (fd ''phone'')) then Some ''Please enter exactly 10 digits''
      else None)"
    by (simp add: validateBookingForm_def Let_def if_app split del: if_split cong: if_cong)
  have d: "validateBookingForm fd ''date'' =
     (if \<not> validateRequired (fd ''date'') then Some ''Please select a date'' else None)"
    by (simp add: validateBookingForm_def Let_def if_app split del: if_split cong: if_cong)
  have t: "validateBookingForm fd ''timeSlot'' =
     (if \<not> validateRequired (fd ''timeSlot'') then Some ''Please select a time slot'' else None)"
    by (simp add: validateBookingForm_def Let_def if_app split del: if_split cong: if_cong)
  have other: "validateBookingForm fd k = None"
    if "k \<notin> {''name'', ''email'', ''phone'', ''date'', ''timeSlot''}" for k
    using that by (simp add: validateBookingForm_def Let_def if_app split del: if_split cong: if_cong)
  have sub: "dom (validateBookingForm fd) \<subseteq> {''name'', ''email'', ''phone'', ''date'', ''timeSlot''}"
  proof
    fix k assume "k \<in> dom (validateBookingForm fd)"
    then have "validateBookingForm fd k \<noteq> None" by (simp add: domIff)
    show "k \<in> {''name'', ''email'', ''phone'', ''date'', ''timeSlot''}"
    proof (rule ccontr)
      assume "k \<notin> {''name'', ''email'', ''phone'', ''date'', ''timeSlot''}"
      then have "validateBookingForm fd k = None" by (rule other)
      with \<open>validateBookingForm fd k \<noteq> None\<close> show False by simp
    qed
  qed
  have only: "dom (validateBookingForm fd) = {''email''}
          \<and> validateBookingForm fd ''email'' = Some ''Email is required''"
    if h: "\<not> validateRequired (fd ''email'')
        \<and> validateRequired (fd ''name'') \<and> 2 \<le> length (trim (the (fd ''name'')))
        \<and> validateRequired (fd ''phone'') \<and> validatePhone (the (fd ''phone''))
        \<and> validateRequired (fd ''date'') \<and> validateRequired (fd ''timeSlot'')"
  proof -
    have "validateBookingForm fd ''name'' = None" "validateBookingForm fd ''phone'' = None"
      "validateBookingForm fd ''date'' = None" "validateBookingForm fd ''timeSlot'' = None"
      and em: "validateBookingForm fd ''email'' = Some ''Email is required''"
      using h by (simp_all add: n e p d t)
    then have "k \<in> dom (validateBookingForm fd) \<longleftrightarrow> k = ''email''" for k
      using other[of k] by (cases "k \<in> {''name'', ''email'', ''phone'', ''date'', ''timeSlot''}")
        (auto simp: domIff)
    then have "dom (validateBookingForm fd) = {''email''}" by blast
    then show ?thesis using em by simp
  qed
  show ?thesis
    apply (rule conjI[OF n])
    apply (rule conjI[OF e])
    apply (rule conjI[OF p])
    apply (rule conjI[OF d])
    apply (rule conjI[OF t])
    apply (rule conjI[OF sub])
    apply (rule impI)
    apply (erule only)
    done
qed


text \<open>C4 at a form with no email and four valid fields.\<close>

theorem validateBookingForm_failing_fields_witness:
  "\<not> validateRequired ([''name'' \<mapsto> ''John Doe'', ''phone'' \<mapsto> ''9876543210'',
        ''date'' \<mapsto> ''February 15, 2026'', ''timeSlot'' \<mapsto> ''10:00 AM - 11:00 AM''] ''email'')
   \<and> dom (validateBookingForm [''name'' \<mapsto> ''John Doe'', ''phone'' \<mapsto> ''9876543210'',
        ''date'' \<mapsto> ''February 15, 2026'', ''timeSlot'' \<mapsto> ''10:00 AM - 11:00 AM'']) = {''email''}"
proof -
  let ?fd = "[''name'' \<mapsto> ''John Doe'', ''phone'' \<mapsto> ''9876543210'',
        ''date'' \<mapsto> ''February 15, 2026'', ''timeSlot'' \<mapsto> ''10:00 AM - 11:00 AM'']"
  have h: "\<not> validateRequired (?fd ''email'')
        \<and> validateRequired (?fd ''name'') \<and> 2 \<le> length (trim (the (?fd ''name'')))
        \<and> validateRequired (?fd ''phone'') \<and> validatePhone (the (?fd ''phone''))
        \<and> validateRequired (?fd ''date'') \<and> validateRequired (?fd ''timeSlot'')"
    by (simp add: validateRequired_def trim_def is_space_def validatePhone_def is_digit_def)
  note imp = validateBookingForm_failing_fields[of ?fd, THEN conjunct2, THEN conjunct2,
      THEN conjunct2, THEN conjunct2, THEN conjunct2, THEN conjunct2]
  have "dom (validateBookingForm ?fd) = {''email''}"
    by (rule imp[THEN mp, OF h, THEN conjunct1])
  then show ?thesis using h[THEN conjunct1] by (rule conjI[rotated])
qed

section \<open>Creating a booking\<close>

lemma trim_Nil: "trim [] = []"
  by (simp add: trim_def)

lemma validate_new_Booking:
  assumes "body ''name'' = Some n" "body ''email'' = Some e" "body ''phone'' = Some p"
    "body ''date'' = Some d" "body ''timeSlot'' = Some t"
  shows "validate (new_Booking i now body) = [] \<longleftrightarrow>
     2 \<le> length (trim n) \<and> length (trim n) \<le> 100 \<and> validateEmail (trim e)
       \<and> 10 \<le> length (trim p) \<and> d \<noteq> [] \<and> t \<noteq> []"
proof -
  have doc: "new_Booking i now body =
      \<lparr>oid = i, name = trim n, email = toLowerCase (trim e), phone = trim p, date = d,
       timeSlot = t, createdAt = now\<rparr>"
    using assms by (simp add: new_Booking_def set_path_def bookingSchema_def)
  have nm: "doValidate [Required m1, Minlength 2 m2, Maxlength 100 m3] (trim n) = None
      \<longleftrightarrow> 2 \<le> length (trim n) \<and> length (trim n) \<le> 100" for m1 m2 m3
    by auto
  have em: "doValidate [Required m1, Match emailRegex m2] (toLowerCase (trim e)) = None
      \<longleftrightarrow> validateEmail (trim e)" for m1 m2
    using emailRegex_nonempty[of "trim e"]
    by (auto simp: validateEmail_def emailRegex_lower toLowerCase_Nil)
  have ph: "doValidate [Required m1, Minlength 10 m2] (trim p) = None
      \<longleftrightarrow> 10 \<le> length (trim p)" for m1 m2
    by auto
  have rq: "doValidate [Required m1] v = None \<longleftrightarrow> v \<noteq> []" for m1 v
    by auto
  have none: "(case x of None \<Rightarrow> [] | Some (msg::string) \<Rightarrow> [msg]) = [] \<longleftrightarrow> x = None" for x
    by (cases x) auto
  show ?thesis
    unfolding doc validate_def bookingSchema_def
    by (simp add: get_path_def none nm em ph rq del: doValidate.simps)
qed

lemma save_outcome:
  "save doc st =
     (if validate doc \<noteq> [] then Rejected (ValidationError (validate doc))
      else if \<not> up st then Rejected StoreError
      else Resolved (doc, st\<lparr>docs := docs st @ [doc], next_id := Suc (next_id st)\<rparr>))"
  by (cases "validate doc") (simp_all add: save_def)

lemma router_post_cases:
  "router_post now body st =
     (if falsy (body ''name'') \<or> falsy (body ''email'') \<or> falsy (body ''phone'')
         \<or> falsy (body ''date'') \<or> falsy (body ''timeSlot'')
      then (\<lparr>status = 400, success = False, message = Some ''All fields are required'',
             count_field = None, data = None\<rparr>, st)
      else if validate (new_Booking (next_id st) now body) \<noteq> []
      then (\<lparr>status = 400, success = False,
             message = Some (join '', '' (validate (new_Booking (next_id st) now body))),
             count_field = None, data = None\<rparr>, st)
      else if \<not> up st then (server_error, st)
      else (\<lparr>status = 201, success = True, message = Some ''Booking created successfully'',
             count_field = None, data = Some (Doc (new_Booking (next_id st) now body))\<rparr>,
            st\<lparr>docs := docs st @ [new_Booking (next_id st) now body],
               next_id := Suc (next_id st)\<rparr>))"
  by (simp add: router_post_def Let_def save_outcome)

lemma router_post_present:
  fixes now :: int and st :: store and body :: obj
  assumes present: "body ''name'' = Some n" "body ''email'' = Some e" "body ''phone'' = Some p"
    "body ''date'' = Some d" "body ''timeSlot'' = Some t"
  defines "ok \<equiv> 2 \<le> length (trim n) \<and> length (trim n) \<le> 100 \<and> validateEmail (trim e)
       \<and> 10 \<le> length (trim p) \<and> d \<noteq> [] \<and> t \<noteq> []"
  defines "saved \<equiv> \<lparr>oid = next_id st, name = trim n, email = toLowerCase (trim e),
       phone = trim p, date = d, timeSlot = t, createdAt = now\<rparr>"
  shows "(\<not> ok \<longrightarrow>
            status (fst (router_post now body st)) = 400
            \<and> \<not> success (fst (router_post now body st))
            \<and> data (fst (router_post now body st)) = None
            \<and> snd (router_post now body st) = st)
       \<and> (ok \<and> \<not> up st \<longrightarrow> router_post now body st = (server_error, st))
       \<and> (ok \<and> up st \<longrightarrow>
            router_post now body st =
              (\<lparr>status = 201, success = True, message = Some ''Booking created successfully'',
                count_field = None, data = Some (Doc saved)\<rparr>,
               st\<lparr>docs := docs st @ [saved], next_id := Suc (next_id st)\<rparr>)
            \<and> (list_all (\<lambda>b. oid b < next_id st) (docs st) \<longrightarrow>
                  oid saved \<notin> oid ` set (docs st)
                  \<and> list_all (\<lambda>b. oid b < Suc (next_id st)) (docs st @ [saved])))"
proof -
  have doc: "new_Booking (next_id st) now body = saved"
    using present by (simp add: saved_def new_Booking_def set_path_def bookingSchema_def)
  have v: "validate (new_Booking (next_id st) now body) = [] \<longleftrightarrow> ok"
    unfolding ok_def by (rule validate_new_Booking[OF present])
  have nonempty: "n \<noteq> [] \<and> e \<noteq> [] \<and> p \<noteq> [] \<and> d \<noteq> [] \<and> t \<noteq> []" if ok
  proof -
    have "trim n \<noteq> []" "trim p \<noteq> []" "trim e \<noteq> []"
      using that emailRegex_nonempty[of "trim e"] by (auto simp: ok_def validateEmail_def)
    then show ?thesis using that trim_Nil by (auto simp: ok_def)
  qed
  have f: "(falsy (body ''name'') \<or> falsy (body ''email'') \<or> falsy (body ''phone'')
         \<or> falsy (body ''date'') \<or> falsy (body ''timeSlot''))
       = (n = [] \<or> e = [] \<or> p = [] \<or> d = [] \<or> t = [])"
    using present by (simp add: falsy_def)
  have rej: "status (fst (router_post now body st)) = 400
            \<and> \<not> success (fst (router_post now body st))
            \<and> data (fst (router_post now body st)) = None
            \<and> snd (router_post now body st) = st" if "\<not> ok"
  proof (cases "n = [] \<or> e = [] \<or> p = [] \<or> d = [] \<or> t = []")
    case True
    then show ?thesis unfolding router_post_cases f by simp
  next
    case False
    moreover have "validate (new_Booking (next_id st) now body) \<noteq> []" using that v by simp
    ultimately show ?thesis unfolding router_post_cases f by simp
  qed
  have down: "router_post now body st = (server_error, st)" if "ok" "\<not> up st"
    unfolding router_post_cases f using nonempty[OF that(1)] v that by simp
  have acc: "router_post now body st =
              (\<lparr>status = 201, success = True, message = Some ''Booking created successfully'',
                count_field = None, data = Some (Doc saved)\<rparr>,
               st\<lparr>docs := docs st @ [saved], next_id := Suc (next_id st)\<rparr>)" if "ok" "up st"
    unfolding router_post_cases f using nonempty[OF that(1)] v that doc by simp
  have fresh: "oid saved \<notin> oid ` set (docs st)
      \<and> list_all (\<lambda>b. oid b < Suc (next_id st)) (docs st @ [saved])"
    if "list_all (\<lambda>b. oid b < next_id st) (docs st)"
    using that by (auto simp: list_all_iff saved_def)
  show ?thesis using rej down acc fresh by blast
qed


lemma router_post_absent:
  assumes "body ''name'' = None \<or> body ''email'' = None \<or> body ''phone'' = None
    \<or> body ''date'' = None \<or> body ''timeSlot'' = None"
  shows "router_post now body st =
     (\<lparr>status = 400, success = False, message = Some ''All fields are required'',
       count_field = None, data = None\<rparr>, st)"
proof -
  have "falsy (body ''name'') \<or> falsy (body ''email'') \<or> falsy (body ''phone'')
         \<or> falsy (body ''date'') \<or> falsy (body ''timeSlot'')"
    using assms by (auto simp: falsy_def)
  then show ?thesis unfolding router_post_cases by simp
qed


text \<open>
  C1, as stated, fails on the code. The server does not run the client's phone rule: the
  schema only asks the trimmed phone for a length of at least 10. A request whose phone
  has twelve digits fails \<open>validatePhone\<close>, and \<open>validateBookingForm\<close> reports it, yet
  the route stores the record and answers 201.
\<close>

theorem create_claim_counterexample:
  "\<not> validatePhone ''987654321012''
   \<and> validateBookingForm
        [''name'' \<mapsto> ''John Doe'', ''email'' \<mapsto> ''john@example.com'',
         ''phone'' \<mapsto> ''987654321012'', ''date'' \<mapsto> ''February 15, 2026'',
         ''timeSlot'' \<mapsto> ''10:00 AM - 11:00 AM''] ''phone''
       = Some ''Please enter exactly 10 digits''
   \<and> router_post 5
        [''name'' \<mapsto> ''John Doe'', ''email'' \<mapsto> ''john@example.com'',
         ''phone'' \<mapsto> ''987654321012'', ''date'' \<mapsto> ''February 15, 2026'',
         ''timeSlot'' \<mapsto> ''10:00 AM - 11:00 AM'']
        \<lparr>docs = [], next_id = 0, up = True\<rparr>
       = (\<lparr>status = 201, success = True, message = Some ''Booking created successfully'',
           count_field = None,
           data = Some (Doc \<lparr>oid = 0, name = ''John Doe'', email = ''john@example.com'',
                   phone = ''987654321012'', date = ''February 15, 2026'',
                   timeSlot = ''10:00 AM - 11:00 AM'', createdAt = 5\<rparr>)\<rparr>,
          \<lparr>docs = [\<lparr>oid = 0, name = ''John Doe'', email = ''john@example.com'',
                   phone = ''987654321012'', date = ''February 15, 2026'',
                   timeSlot = ''10:00 AM - 11:00 AM'', createdAt = 5\<rparr>],
           next_id = 1, up = True\<rparr>)"
  by code_simp


text \<open>
  C1, amended. The route persists a record exactly when the request passes the server's
  own rules: all five fields are present, the trimmed name has 2 to 100 characters, the
  trimmed email matches \<open>emailRegex\<close>, the trimmed phone has at least 10 characters, and
  date and time slot are not empty. A request that fails any of them gets status 400 and
  the store is unchanged. A request that passes is stored, when the database can be
  reached, as a new record with the next identifier (not among the stored ones), the
  current time, the name and phone trimmed and the email trimmed and lowercased, and the
  answer carries the stored record; when the database cannot be reached the answer is
  the server error and the store is unchanged.
\<close>

theorem router_post_gate:
  fixes now :: int and st :: store and body :: obj
  defines "ok \<equiv> (\<exists>n e p d t.
       body ''name'' = Some n \<and> body ''email'' = Some e \<and> body ''phone'' = Some p
       \<and> body ''date'' = Some d \<and> body ''timeSlot'' = Some t
       \<and> 2 \<le> length (trim n) \<and> length (trim n) \<le> 100 \<and> validateEmail (trim e)
       \<and> 10 \<le> length (trim p) \<and> d \<noteq> [] \<and> t \<noteq> [])"
  defines "saved \<equiv> \<lparr>oid = next_id st, name = trim (the (body ''name'')),
       email = toLowerCase (trim (the (body ''email''))), phone = trim (the (body ''phone'')),
       date = the (body ''date''), timeSlot = the (body ''timeSlot''), createdAt = now\<rparr>"
  shows "(\<not> ok \<longrightarrow>
            status (fst (router_post now body st)) = 400
            \<and> \<not> success (fst (router_post now body st))
            \<and> data (fst (router_post now body st)) = None
            \<and> snd (router_post now body st) = st)
       \<and> (ok \<and> \<not> up st \<longrightarrow> router_post now body st = (server_error, st))
       \<and> (ok \<and> up st \<longrightarrow>
            router_post now body st =
              (\<lparr>status = 201, success = True, message = Some ''Booking created successfully'',
                count_field = None, data = Some (Doc saved)\<rparr>,
               st\<lparr>docs := docs st @ [saved], next_id := Suc (next_id st)\<rparr>)
            \<and> (list_all (\<lambda>b. oid b < next_id st) (docs st) \<longrightarrow>
                  oid saved \<notin> oid ` set (docs st)
                  \<and> list_all (\<lambda>b. oid b < Suc (next_id st)) (docs st @ [saved])))"
proof (cases "body ''name'' = None \<or> body ''email'' = None \<or> body ''phone'' = None
    \<or> body ''date'' = None \<or> body ''timeSlot'' = None")
  case True
  then have "\<not> ok" unfolding ok_def by auto
  then show ?thesis using router_post_absent[OF True, of now st] by simp
next
  case False
  then obtain n e p d t where present: "body ''name'' = Some n" "body ''email'' = Some e"
      "body ''phone'' = Some p" "body ''date'' = Some d" "body ''timeSlot'' = Some t"
    by auto
  have ok: "ok \<longleftrightarrow> 2 \<le> length (trim n) \<and> length (trim n) \<le> 100 \<and> validateEmail (trim e)
       \<and> 10 \<le> length (trim p) \<and> d \<noteq> [] \<and> t \<noteq> []"
    unfolding ok_def using present by simp
  have saved: "saved = \<lparr>oid = next_id st, name = trim n, email = toLowerCase (trim e),
       phone = trim p, date = d, timeSlot = t, createdAt = now\<rparr>"
    unfolding saved_def using present by simp
  show ?thesis
    unfolding ok saved by (rule router_post_present[OF present])
qed


text \<open>The amended C1 at a request that passes and at a request with one field only.\<close>

theorem router_post_gate_witness:
  "router_post 5
     [''name'' \<mapsto> '' John Doe'', ''email'' \<mapsto> ''John@Example.com'',
      ''phone'' \<mapsto> ''9876543210'', ''date'' \<mapsto> ''February 15, 2026'',
      ''timeSlot'' \<mapsto> ''10:00 AM - 11:00 AM'']
     \<lparr>docs = [], next_id = 0, up = True\<rparr>
   = (\<lparr>status = 201, success = True, message = Some ''Booking created successfully'',
       count_field = None,
       data = Some (Doc \<lparr>oid = 0, name = ''John Doe'', email = ''john@example.com'',
               phone = ''9876543210'', date = ''February 15, 2026'',
               timeSlot = ''10:00 AM - 11:00 AM'', createdAt = 5\<rparr>)\<rparr>,
      \<lparr>docs = [\<lparr>oid = 0, name = ''John Doe'', email = ''john@example.com'',
               phone = ''9876543210'', date = ''February 15, 2026'',
               timeSlot = ''10:00 AM - 11:00 AM'', createdAt = 5\<rparr>],
       next_id = 1, up = True\<rparr>)
   \<and> snd (router_post 5 [''name'' \<mapsto> ''J''] \<lparr>docs = [], next_id = 0, up = True\<rparr>)
       = \<lparr>docs = [], next_id = 0, up = True\<rparr>"
proof -
  let ?b = "[''name'' \<mapsto> '' John Doe'', ''email'' \<mapsto> ''John@Example.com'',
      ''phone'' \<mapsto> ''9876543210'', ''date'' \<mapsto> ''February 15, 2026'',
      ''timeSlot'' \<mapsto> ''10:00 AM - 11:00 AM'']"
  let ?st = "\<lparr>docs = [], next_id = 0, up = True\<rparr>"
  have tn: "trim '' John Doe'' = ''John Doe''" and te: "trim ''John@Example.com'' = ''John@Example.com''"
    and tp: "trim ''9876543210'' = ''9876543210''"
    and le: "toLowerCase ''John@Example.com'' = ''john@example.com''"
    and ve: "validateEmail ''John@Example.com''"
    by code_simp+
  have ok: "\<exists>n e p d t.
       ?b ''name'' = Some n \<and> ?b ''email'' = Some e \<and> ?b ''phone'' = Some p
       \<and> ?b ''date'' = Some d \<and> ?b ''timeSlot'' = Some t
       \<and> 2 \<le> length (trim n) \<and> length (trim n) \<le> 100 \<and> validateEmail (trim e)
       \<and> 10 \<le> length (trim p) \<and> d \<noteq> [] \<and> t \<noteq> []"
    by (simp add: tn te tp ve)
  have a: "router_post 5 ?b ?st = (\<lparr>status = 201, success = True, message = Some ''Booking created successfully'',
       count_field = None,
       data = Some (Doc \<lparr>oid = 0, name = ''John Doe'', email = ''john@example.com'',
               phone = ''9876543210'', date = ''February 15, 2026'',
               timeSlot = ''10:00 AM - 11:00 AM'', createdAt = 5\<rparr>)\<rparr>,
      \<lparr>docs = [\<lparr>oid = 0, name = ''John Doe'', email = ''john@example.com'',
               phone = ''9876543210'', date = ''February 15, 2026'',
               timeSlot = ''10:00 AM - 11:00 AM'', createdAt = 5\<rparr>],
       next_id = 1, up = True\<rparr>)"
    using router_post_gate[where body = ?b and st = ?st and now = 5, THEN conjunct2, THEN conjunct2, THEN mp, OF conjI[OF ok], THEN conjunct1]
    by (simp add: tn te tp le)
  have nok: "\<not> (\<exists>n e p d t.
       [''name'' \<mapsto> ''J''] ''name'' = Some n \<and> [''name'' \<mapsto> ''J''] ''email'' = Some e \<and> [''name'' \<mapsto> ''J''] ''phone'' = Some p
       \<and> [''name'' \<mapsto> ''J''] ''date'' = Some d \<and> [''name'' \<mapsto> ''J''] ''timeSlot'' = Some t
       \<and> 2 \<le> length (trim n) \<and> length (trim n) \<le> 100 \<and> validateEmail (trim e)
       \<and> 10 \<le> length (trim p) \<and> d \<noteq> [] \<and> t \<noteq> [])"
    by simp
  have b: "snd (router_post 5 [''name'' \<mapsto> ''J''] ?st) = ?st"
    using router_post_gate[where body = "[''name'' \<mapsto> ''J'']" and st = ?st and now = 5, THEN conjunct1, THEN mp, OF nok]
    by (elim conjE)
  show ?thesis using a b by (rule conjI)
qed

section \<open>Listing and deleting\<close>

lemma find_sorted_up:
  "up st \<Longrightarrow> find_sorted st = Resolved (sort_key (\<lambda>b. - createdAt b) (docs st))"
  by (simp add: find_sorted_def)

lemma newest_first_sorted:
  "sorted_wrt (\<lambda>a b. createdAt a \<ge> createdAt b) (sort_key (\<lambda>b. - createdAt b) xs)"
proof -
  have "sorted (map (\<lambda>b. - createdAt b) (sort_key (\<lambda>b. - createdAt b) xs))"
    by (rule sorted_sort_key)
  then show ?thesis by (simp add: sorted_map)
qed

lemma router_post_created:
  assumes "router_post now body st = (r, st')" "status r = 201"
  shows "\<exists>b. data r = Some (Doc b) \<and> createdAt b = now \<and> up st
     \<and> st' = st\<lparr>docs := docs st @ [b], next_id := Suc (next_id st)\<rparr>"
  using assms unfolding router_post_cases
  by (auto split: if_splits simp: new_Booking_def server_error_def)

lemma router_get_up:
  "up st \<Longrightarrow> router_get st =
     \<lparr>status = 200, success = True, message = None,
      count_field = Some (length (docs st)),
      data = Some (Docs (sort_key (\<lambda>b. - createdAt b) (docs st)))\<rparr>"
  by (simp add: router_get_def find_sorted_up)

lemma router_get_down: "\<not> up st \<Longrightarrow> router_get st = server_error"
  by (simp add: router_get_def find_sorted_def)


lemma delete_first_absent: "i \<notin> oid ` set bs \<Longrightarrow> delete_first i bs = (None, bs)"
  by (induction bs) auto

lemma delete_first_present:
  "i \<in> oid ` set bs \<Longrightarrow>
     \<exists>b rest. delete_first i bs = (Some b, rest) \<and> oid b = i \<and> mset bs = add_mset b (mset rest)"
proof (induction bs)
  case Nil
  then show ?case by simp
next
  case (Cons a bs)
  show ?case
  proof (cases "oid a = i")
    case True
    then show ?thesis by simp
  next
    case False
    with Cons.prems have "i \<in> oid ` set bs" by auto
    from Cons.IH[OF this] obtain b rest where
      "delete_first i bs = (Some b, rest)" "oid b = i" "mset bs = add_mset b (mset rest)"
      by blast
    then show ?thesis using False by simp
  qed
qed

lemma delete_first_distinct:
  "distinct (map oid bs) \<Longrightarrow> snd (delete_first i bs) = filter (\<lambda>b. oid b \<noteq> i) bs"
proof (induction bs)
  case Nil
  then show ?case by simp
next
  case (Cons a bs)
  show ?case
  proof (cases "oid a = i")
    case True
    with Cons.prems have "\<forall>b \<in> set bs. oid b \<noteq> i" by (auto simp: image_iff)
    then have "filter (\<lambda>b. oid b \<noteq> i) bs = bs" by (simp add: filter_id_conv)
    then show ?thesis using True by simp
  next
    case False
    then show ?thesis using Cons by (simp add: split_beta)
  qed
qed


text \<open>
  C5. When the database can be reached, the list route answers with every stored record
  (the answer is a rearrangement of the whole collection, whatever its size), ordered by
  creation time with the most recent first. Three records created one after the other,
  at increasing times, into an empty collection are listed last-created first.
\<close>

theorem router_get_newest_first:
  "(up st \<longrightarrow>
      (\<exists>bs. router_get st =
              \<lparr>status = 200, success = True, message = None,
               count_field = Some (length (docs st)), data = Some (Docs bs)\<rparr>
            \<and> mset bs = mset (docs st)
            \<and> sorted_wrt (\<lambda>a b. createdAt a \<ge> createdAt b) bs))
   \<and> (router_post t1 b1 \<lparr>docs = [], next_id = k, up = True\<rparr> = (r1, s1) \<and> status r1 = 201
      \<and> router_post t2 b2 s1 = (r2, s2) \<and> status r2 = 201
      \<and> router_post t3 b3 s2 = (r3, s3) \<and> status r3 = 201
      \<and> t1 < t2 \<and> t2 < t3
      \<longrightarrow> (\<exists>d1 d2 d3. data r1 = Some (Doc d1) \<and> data r2 = Some (Doc d2) \<and> data r3 = Some (Doc d3)
            \<and> data (router_get s3) = Some (Docs [d3, d2, d1])))"
proof (intro conjI impI)
  assume "up st"
  then show "\<exists>bs. router_get st =
              \<lparr>status = 200, success = True, message = None,
               count_field = Some (length (docs st)), data = Some (Docs bs)\<rparr>
            \<and> mset bs = mset (docs st)
            \<and> sorted_wrt (\<lambda>a b. createdAt a \<ge> createdAt b) bs"
    using newest_first_sorted[of "docs st"] by (simp add: router_get_up)
next
  assume h: "router_post t1 b1 \<lparr>docs = [], next_id = k, up = True\<rparr> = (r1, s1) \<and> status r1 = 201
      \<and> router_post t2 b2 s1 = (r2, s2) \<and> status r2 = 201
      \<and> router_post t3 b3 s2 = (r3, s3) \<and> status r3 = 201
      \<and> t1 < t2 \<and> t2 < t3"
  from h obtain d1 where d1: "data r1 = Some (Doc d1)" "createdAt d1 = t1"
      "s1 = \<lparr>docs = [d1], next_id = Suc k, up = True\<rparr>"
    using router_post_created[of t1 b1 "\<lparr>docs = [], next_id = k, up = True\<rparr>" r1 s1] by auto
  from h obtain d2 where d2: "data r2 = Some (Doc d2)" "createdAt d2 = t2"
      "s2 = \<lparr>docs = [d1, d2], next_id = Suc (Suc k), up = True\<rparr>"
    using router_post_created[of t2 b2 s1 r2 s2] d1(3) by auto
  from h obtain d3 where d3: "data r3 = Some (Doc d3)" "createdAt d3 = t3"
      "s3 = \<lparr>docs = [d1, d2, d3], next_id = Suc (Suc (Suc k)), up = True\<rparr>"
    using router_post_created[of t3 b3 s2 r3 s3] d2(3) by auto
  have "sort_key (\<lambda>b. - createdAt b) [d1, d2, d3] = [d3, d2, d1]"
    using h d1(2) d2(2) d3(2) by simp
  then have "data (router_get s3) = Some (Docs [d3, d2, d1])"
    by (simp add: router_get_up d3(3))
  then show "\<exists>d1 d2 d3. data r1 = Some (Doc d1) \<and> data r2 = Some (Doc d2) \<and> data r3 = Some (Doc d3)
            \<and> data (router_get s3) = Some (Docs [d3, d2, d1])"
    using d1(1) d2(1) d3(1) by blast
qed


text \<open>C5 at the empty collection and after three creations at times 1, 2 and 3.\<close>

theorem router_get_newest_first_witness:
  "(\<exists>bs. router_get \<lparr>docs = [], next_id = 0, up = True\<rparr> =
              \<lparr>status = 200, success = True, message = None,
               count_field = Some 0, data = Some (Docs bs)\<rparr>)
   \<and> (\<exists>d1 d2 d3.
        createdAt d1 = 1 \<and> createdAt d2 = 2 \<and> createdAt d3 = 3
        \<and> data (router_get
             (snd (router_post 3 [''name'' \<mapsto> ''Al'', ''email'' \<mapsto> ''a@b.c'',
                      ''phone'' \<mapsto> ''0123456789'', ''date'' \<mapsto> ''d'', ''timeSlot'' \<mapsto> ''t'']
               (snd (router_post 2 [''name'' \<mapsto> ''Al'', ''email'' \<mapsto> ''a@b.c'',
                      ''phone'' \<mapsto> ''0123456789'', ''date'' \<mapsto> ''d'', ''timeSlot'' \<mapsto> ''t'']
                 (snd (router_post 1 [''name'' \<mapsto> ''Al'', ''email'' \<mapsto> ''a@b.c'',
                      ''phone'' \<mapsto> ''0123456789'', ''date'' \<mapsto> ''d'', ''timeSlot'' \<mapsto> ''t'']
                   \<lparr>docs = [], next_id = 0, up = True\<rparr>)))))))
            = Some (Docs [d3, d2, d1]))"
proof -
  let ?B = "[''name'' \<mapsto> ''Al'', ''email'' \<mapsto> ''a@b.c'',
                      ''phone'' \<mapsto> ''0123456789'', ''date'' \<mapsto> ''d'', ''timeSlot'' \<mapsto> ''t'']"
  let ?s0 = "\<lparr>docs = [], next_id = 0, up = True\<rparr>"
  let ?p1 = "router_post 1 ?B ?s0"
  let ?p2 = "router_post 2 ?B (snd ?p1)"
  let ?p3 = "router_post 3 ?B (snd ?p2)"
  have up0: "up ?s0" by simp
  have a: "\<exists>bs. router_get ?s0 =
              \<lparr>status = 200, success = True, message = None,
               count_field = Some 0, data = Some (Docs bs)\<rparr>"
    using router_get_newest_first[of ?s0, THEN conjunct1, THEN mp, OF up0] by auto
  have s1: "status (fst ?p1) = 201" and c1: "createdAt (case data (fst ?p1) of Some (Doc d) \<Rightarrow> d) = 1"
    by code_simp+
  have s2: "status (fst ?p2) = 201" and c2: "createdAt (case data (fst ?p2) of Some (Doc d) \<Rightarrow> d) = 2"
    by code_simp+
  have s3: "status (fst ?p3) = 201" and c3: "createdAt (case data (fst ?p3) of Some (Doc d) \<Rightarrow> d) = 3"
    by code_simp+
  have h: "router_post 1 ?B \<lparr>docs = [], next_id = 0, up = True\<rparr> = (fst ?p1, snd ?p1)
      \<and> status (fst ?p1) = 201
      \<and> router_post 2 ?B (snd ?p1) = (fst ?p2, snd ?p2) \<and> status (fst ?p2) = 201
      \<and> router_post 3 ?B (snd ?p2) = (fst ?p3, snd ?p3) \<and> status (fst ?p3) = 201
      \<and> (1::int) < 2 \<and> (2::int) < 3"
    using s1 s2 s3 by simp
  from router_get_newest_first[of _ 1 ?B 0 "fst ?p1" "snd ?p1" 2 ?B "fst ?p2" "snd ?p2" 3 ?B
      "fst ?p3" "snd ?p3", THEN conjunct2, THEN mp, OF h]
  obtain d1 d2 d3 where d: "data (fst ?p1) = Some (Doc d1)" "data (fst ?p2) = Some (Doc d2)"
      "data (fst ?p3) = Some (Doc d3)" "data (router_get (snd ?p3)) = Some (Docs [d3, d2, d1])"
    by blast
  have "createdAt d1 = 1" "createdAt d2 = 2" "createdAt d3 = 3"
    using c1 c2 c3 by (simp_all add: d(1-3))
  then show ?thesis using a d(4) by blast
qed


text \<open>
  C10. In every successful answer of the list route, the count is the length of the
  data array, which is the number of records in the collection; an answer that is not
  successful is the server error, which has no count.
\<close>

theorem router_get_count:
  "(success (router_get st) \<longrightarrow>
      (\<exists>bs. data (router_get st) = Some (Docs bs)
         \<and> count_field (router_get st) = Some (length bs)
         \<and> length bs = length (docs st)))
   \<and> (\<not> success (router_get st) \<longrightarrow> router_get st = server_error)"
proof (cases "up st")
  case True
  then show ?thesis by (simp add: router_get_up)
next
  case False
  then show ?thesis by (simp add: router_get_down server_error_def)
qed



text \<open>C10 at a collection of one record, and at a database that cannot be reached.\<close>

theorem router_get_count_witness:
  "success (router_get \<lparr>docs = [\<lparr>oid = 0, name = ''Al'', email = ''a@b.c'',
        phone = ''0123456789'', date = ''d'', timeSlot = ''t'', createdAt = 1\<rparr>],
        next_id = 1, up = True\<rparr>)
   \<and> count_field (router_get \<lparr>docs = [\<lparr>oid = 0, name = ''Al'', email = ''a@b.c'',
        phone = ''0123456789'', date = ''d'', timeSlot = ''t'', createdAt = 1\<rparr>],
        next_id = 1, up = True\<rparr>) = Some 1
   \<and> router_get \<lparr>docs = [], next_id = 0, up = False\<rparr> = server_error"
proof -
  let ?st = "\<lparr>docs = [\<lparr>oid = 0, name = ''Al'', email = ''a@b.c'',
        phone = ''0123456789'', date = ''d'', timeSlot = ''t'', createdAt = 1\<rparr>],
        next_id = 1, up = True\<rparr>"
  let ?down = "\<lparr>docs = [], next_id = 0, up = False\<rparr>"
  have s: "success (router_get ?st)" by (simp add: router_get_def find_sorted_def)
  have n: "\<not> success (router_get ?down)"
    by (simp add: router_get_def find_sorted_def server_error_def)
  from router_get_count[of ?st, THEN conjunct1, THEN mp, OF s]
  have c: "count_field (router_get ?st) = Some 1" by auto
  have d: "router_get ?down = server_error"
    by (rule router_get_count[of ?down, THEN conjunct2, THEN mp, OF n])
  show ?thesis using s c d by (intro conjI)
qed

lemma router_delete_cast_fails:
  "castObjectId i = None \<Longrightarrow> router_delete i st = (server_error, st)"
  by (simp add: router_delete_def findByIdAndDelete_def)

lemma router_delete_well_formed:
  assumes cast: "castObjectId i = Some k"
  shows
  "(up st \<and> k \<notin> oid ` set (docs st) \<longrightarrow>
      router_delete i st =
        (\<lparr>status = 404, success = False, message = Some ''Booking not found'',
          count_field = None, data = None\<rparr>, st)
      \<and> status (fst (router_delete i st)) \<noteq> status server_error
      \<and> length (docs (snd (router_delete i st))) = length (docs st))
   \<and> (up st \<and> k \<in> oid ` set (docs st) \<longrightarrow>
      fst (router_delete i st) =
        \<lparr>status = 200, success = True, message = Some ''Booking deleted successfully'',
         count_field = None, data = None\<rparr>
      \<and> (\<exists>b. oid b = k \<and> mset (docs st) = add_mset b (mset (docs (snd (router_delete i st)))))
      \<and> Suc (length (docs (snd (router_delete i st)))) = length (docs st)
      \<and> (distinct (map oid (docs st)) \<longrightarrow>
            docs (snd (router_delete i st)) = filter (\<lambda>b. oid b \<noteq> k) (docs st)))
   \<and> (\<not> up st \<longrightarrow> router_delete i st = (server_error, st))"
proof (intro conjI impI)
  assume "\<not> up st"
  then show "router_delete i st = (server_error, st)"
    by (simp add: router_delete_def findByIdAndDelete_def cast)
next
  assume h: "up st \<and> k \<notin> oid ` set (docs st)"
  then have r: "router_delete i st =
        (\<lparr>status = 404, success = False, message = Some ''Booking not found'',
          count_field = None, data = None\<rparr>, st)"
    by (simp add: router_delete_def findByIdAndDelete_def delete_first_absent cast)
  show "router_delete i st =
        (\<lparr>status = 404, success = False, message = Some ''Booking not found'',
          count_field = None, data = None\<rparr>, st)" by (rule r)
  show "status (fst (router_delete i st)) \<noteq> status server_error"
    by (simp add: r server_error_def)
  show "length (docs (snd (router_delete i st))) = length (docs st)"
    by (simp add: r)
next
  assume h: "up st \<and> k \<in> oid ` set (docs st)"
  then obtain b rest where d: "delete_first k (docs st) = (Some b, rest)" "oid b = k"
      "mset (docs st) = add_mset b (mset rest)"
    using delete_first_present[of k "docs st"] by blast
  have r: "router_delete i st =
      (\<lparr>status = 200, success = True, message = Some ''Booking deleted successfully'',
         count_field = None, data = None\<rparr>, st\<lparr>docs := rest\<rparr>)"
    using h d(1) by (simp add: router_delete_def findByIdAndDelete_def cast)
  show "fst (router_delete i st) =
        \<lparr>status = 200, success = True, message = Some ''Booking deleted successfully'',
         count_field = None, data = None\<rparr>" by (simp add: r)
  show "\<exists>b. oid b = k \<and> mset (docs st) = add_mset b (mset (docs (snd (router_delete i st))))"
    using d(2,3) by (auto simp: r)
  have "size (mset (docs st)) = Suc (size (mset rest))" by (simp add: d(3))
  then show "Suc (length (docs (snd (router_delete i st)))) = length (docs st)"
    by (simp add: r)
  { assume "distinct (map oid (docs st))"
    then have "snd (delete_first k (docs st)) = filter (\<lambda>b. oid b \<noteq> k) (docs st)"
      by (rule delete_first_distinct)
    then show "docs (snd (router_delete i st)) = filter (\<lambda>b. oid b \<noteq> k) (docs st)"
      by (simp add: r d(1)) }
qed



text \<open>
  C6. The route parameter \<open>not-an-id\<close> is the identifier of no stored record, and the
  delete route answers it with the server error, status 500, where the claim asks for
  404. At a well-formed identifier that no record has, the answer is 404. In both
  cases the collection is as it was.
\<close>

theorem router_delete_malformed_id:
  "router_delete ''not-an-id''
     \<lparr>docs = [\<lparr>oid = 0, name = ''Al'', email = ''a@b.c'', phone = ''0123456789'',
        date = ''d'', timeSlot = ''t'', createdAt = 1\<rparr>], next_id = 1, up = True\<rparr>
     = (\<lparr>status = 500, success = False,
          message = Some ''Server error. Please try again later.'',
          count_field = None, data = None\<rparr>,
        \<lparr>docs = [\<lparr>oid = 0, name = ''Al'', email = ''a@b.c'', phone = ''0123456789'',
        date = ''d'', timeSlot = ''t'', createdAt = 1\<rparr>], next_id = 1, up = True\<rparr>)
   \<and> router_delete ''000000000000000000000007''
     \<lparr>docs = [\<lparr>oid = 0, name = ''Al'', email = ''a@b.c'', phone = ''0123456789'',
        date = ''d'', timeSlot = ''t'', createdAt = 1\<rparr>], next_id = 1, up = True\<rparr>
     = (\<lparr>status = 404, success = False, message = Some ''Booking not found'',
          count_field = None, data = None\<rparr>,
        \<lparr>docs = [\<lparr>oid = 0, name = ''Al'', email = ''a@b.c'', phone = ''0123456789'',
        date = ''d'', timeSlot = ''t'', createdAt = 1\<rparr>], next_id = 1, up = True\<rparr>)"
  by code_simp

section \<open>The spreadsheet\<close>

lemma header_row_columns:
  "header_row columns =
     map (\<lambda>h. Some (Str h))
       [''S.No'', ''Name'', ''Email'', ''Phone'', ''Date'', ''Time Slot'', ''Booked On'']"
  by (simp add: header_row_def columns_def)

lemma addRow_row_values:
  "addRow columns (row_values f i b) =
     [Some (Num (i + 1)), Some (Str (name b)), Some (Str (email b)), Some (Str (phone b)),
      Some (Str (date b)), Some (Str (timeSlot b)), Some (Str (f (createdAt b)))]"
  by (simp add: addRow_def columns_def row_values_def)

lemma forEach_addRow_rows:
  "forEach_addRow f rows k bs =
     rows @ map (\<lambda>(i, b). addRow columns (row_values f i b)) (enumerate k bs)"
  by (induction bs arbitrary: rows k) simp_all


lemma worksheet_layout:
  "worksheet f xs =
     map (\<lambda>h. Some (Str h))
       [''S.No'', ''Name'', ''Email'', ''Phone'', ''Date'', ''Time Slot'', ''Booked On'']
     # map (\<lambda>(i, b).
         [Some (Num (i + 1)), Some (Str (name b)), Some (Str (email b)), Some (Str (phone b)),
          Some (Str (date b)), Some (Str (timeSlot b)), Some (Str (f (createdAt b)))])
       (enumerate 0 xs)"
  unfolding worksheet_def forEach_addRow_rows header_row_columns
  by (simp add: addRow_row_values)

lemma router_export_up:
  "up st \<Longrightarrow> router_export f c n st =
     Inr \<lparr>content_type = ''application/vnd.openxmlformats-officedocument.spreadsheetml.sheet'',
          content_disposition = ''attachment; filename=bookings_'' @ number_string n @ ''.xlsx'',
          attachment =
            \<lparr>creator = ''Appointment Booking System'', created = c, sheet_name = ''Bookings'',
             sheet_rows = worksheet f (sort_key (\<lambda>b. - createdAt b) (docs st))\<rparr>\<rparr>"
  by (simp add: router_export_def find_sorted_def)

text \<open>
  C7, as stated, fails on the code. The file the export route sends is not determined by
  the list and the locale: the workbook carries the time of the export in its \<open>created\<close>
  property and the suggested file name carries a clock reading. The same collection,
  formatted the same way, exported at the times 1 and 2 gives two different downloads
  with the same rows.
\<close>

theorem export_claim_counterexample:
  "router_export (\<lambda>t. ''1 Jan 1970, 5:30 am'') 1 1
     \<lparr>docs = [\<lparr>oid = 0, name = ''Al'', email = ''a@b.c'', phone = ''0123456789'',
        date = ''d'', timeSlot = ''t'', createdAt = 1\<rparr>], next_id = 1, up = True\<rparr>
     = Inr \<lparr>content_type = ''application/vnd.openxmlformats-officedocument.spreadsheetml.sheet'',
          content_disposition = ''attachment; filename=bookings_1.xlsx'',
          attachment =
            \<lparr>creator = ''Appointment Booking System'', created = 1, sheet_name = ''Bookings'',
             sheet_rows =
               [[Some (Str ''S.No''), Some (Str ''Name''), Some (Str ''Email''),
                 Some (Str ''Phone''), Some (Str ''Date''), Some (Str ''Time Slot''),
                 Some (Str ''Booked On'')],
                [Some (Num 1), Some (Str ''Al''), Some (Str ''a@b.c''),
                 Some (Str ''0123456789''), Some (Str ''d''), Some (Str ''t''),
                 Some (Str ''1 Jan 1970, 5:30 am'')]]\<rparr>\<rparr>
   \<and> router_export (\<lambda>t. ''1 Jan 1970, 5:30 am'') 2 2
     \<lparr>docs = [\<lparr>oid = 0, name = ''Al'', email = ''a@b.c'', phone = ''0123456789'',
        date = ''d'', timeSlot = ''t'', createdAt = 1\<rparr>], next_id = 1, up = True\<rparr>
     = Inr \<lparr>content_type = ''application/vnd.openxmlformats-officedocument.spreadsheetml.sheet'',
          content_disposition = ''attachment; filename=bookings_2.xlsx'',
          attachment =
            \<lparr>creator = ''Appointment Booking System'', created = 2, sheet_name = ''Bookings'',
             sheet_rows =
               [[Some (Str ''S.No''), Some (Str ''Name''), Some (Str ''Email''),
                 Some (Str ''Phone''), Some (Str ''Date''), Some (Str ''Time Slot''),
                 Some (Str ''Booked On'')],
                [Some (Num 1), Some (Str ''Al''), Some (Str ''a@b.c''),
                 Some (Str ''0123456789''), Some (Str ''d''), Some (Str ''t''),
                 Some (Str ''1 Jan 1970, 5:30 am'')]]\<rparr>\<rparr>
   \<and> router_export (\<lambda>t. ''1 Jan 1970, 5:30 am'') 1 1
     \<lparr>docs = [\<lparr>oid = 0, name = ''Al'', email = ''a@b.c'', phone = ''0123456789'',
        date = ''d'', timeSlot = ''t'', createdAt = 1\<rparr>], next_id = 1, up = True\<rparr>
     \<noteq> router_export (\<lambda>t. ''1 Jan 1970, 5:30 am'') 2 2
     \<lparr>docs = [\<lparr>oid = 0, name = ''Al'', email = ''a@b.c'', phone = ''0123456789'',
        date = ''d'', timeSlot = ''t'', createdAt = 1\<rparr>], next_id = 1, up = True\<rparr>"
  by code_simp

text \<open>
  C7, amended. The worksheet of a list of records is one header row followed by one row
  for each record, in the order of the list; a row holds the position of the record
  counted from 1, then name, email, phone, date, time slot, and the formatted creation
  time. The empty list gives the header row alone, and the export route on an empty
  collection answers with a file of that one row, not with an error. The rows are
  determined by the list and by the formatting of creation times (which is the locale's
  in the time zone of the host). The file is more than its rows: when the database can
  be reached, the route sends the worksheet of the whole collection, most recent first,
  in a workbook whose \<open>created\<close> property is the time of the export, under a file name
  that carries the clock reading.
\<close>

theorem export_rows:
  "worksheet f bs =
     map (\<lambda>h. Some (Str h))
       [''S.No'', ''Name'', ''Email'', ''Phone'', ''Date'', ''Time Slot'', ''Booked On'']
     # map (\<lambda>(i, b).
         [Some (Num (i + 1)), Some (Str (name b)), Some (Str (email b)), Some (Str (phone b)),
          Some (Str (date b)), Some (Str (timeSlot b)), Some (Str (f (createdAt b)))])
       (enumerate 0 bs)
   \<and> length (worksheet f bs) = Suc (length bs)
   \<and> worksheet f [] =
       [map (\<lambda>h. Some (Str h))
         [''S.No'', ''Name'', ''Email'', ''Phone'', ''Date'', ''Time Slot'', ''Booked On'']]
   \<and> router_export f c n \<lparr>docs = [], next_id = k, up = True\<rparr> =
       Inr \<lparr>content_type = ''application/vnd.openxmlformats-officedocument.spreadsheetml.sheet'',
            content_disposition = ''attachment; filename=bookings_'' @ number_string n @ ''.xlsx'',
            attachment =
              \<lparr>creator = ''Appointment Booking System'', created = c, sheet_name = ''Bookings'',
               sheet_rows =
                 [map (\<lambda>h. Some (Str h))
                   [''S.No'', ''Name'', ''Email'', ''Phone'', ''Date'', ''Time Slot'',
                    ''Booked On'']]\<rparr>\<rparr>
   \<and> (up st \<longrightarrow>
        (\<exists>sorted_docs.
           mset sorted_docs = mset (docs st)
           \<and> sorted_wrt (\<lambda>a b. createdAt a \<ge> createdAt b) sorted_docs
           \<and> router_export f c n st =
               Inr \<lparr>content_type =
                      ''application/vnd.openxmlformats-officedocument.spreadsheetml.sheet'',
                    content_disposition =
                      ''attachment; filename=bookings_'' @ number_string n @ ''.xlsx'',
                    attachment =
                      \<lparr>creator = ''Appointment Booking System'', created = c,
                       sheet_name = ''Bookings'',
                       sheet_rows = worksheet f sorted_docs\<rparr>\<rparr>))"
proof -
  have l: "length (worksheet f bs) = Suc (length bs)" by (simp add: worksheet_layout)
  have e: "worksheet f [] =
       [map (\<lambda>h. Some (Str h))
         [''S.No'', ''Name'', ''Email'', ''Phone'', ''Date'', ''Time Slot'', ''Booked On'']]"
    by (simp add: worksheet_layout)
  have r0: "router_export f c n \<lparr>docs = [], next_id = k, up = True\<rparr> =
       Inr \<lparr>content_type = ''application/vnd.openxmlformats-officedocument.spreadsheetml.sheet'',
            content_disposition = ''attachment; filename=bookings_'' @ number_string n @ ''.xlsx'',
            attachment =
              \<lparr>creator = ''Appointment Booking System'', created = c, sheet_name = ''Bookings'',
               sheet_rows =
                 [map (\<lambda>h. Some (Str h))
                   [''S.No'', ''Name'', ''Email'', ''Phone'', ''Date'', ''Time Slot'',
                    ''Booked On'']]\<rparr>\<rparr>"
    by (simp add: router_export_up e)
  have r: "\<exists>sorted_docs.
           mset sorted_docs = mset (docs st)
           \<and> sorted_wrt (\<lambda>a b. createdAt a \<ge> createdAt b) sorted_docs
           \<and> router_export f c n st =
               Inr \<lparr>content_type =
                      ''application/vnd.openxmlformats-officedocument.spreadsheetml.sheet'',
                    content_disposition =
                      ''attachment; filename=bookings_'' @ number_string n @ ''.xlsx'',
                    attachment =
                      \<lparr>creator = ''Appointment Booking System'', created = c,
                       sheet_name = ''Bookings'',
                       sheet_rows = worksheet f sorted_docs\<rparr>\<rparr>" if "up st"
  proof (intro exI conjI)
    show "mset (sort_key (\<lambda>b. - createdAt b) (docs st)) = mset (docs st)" by simp
    show "sorted_wrt (\<lambda>a b. createdAt a \<ge> createdAt b) (sort_key (\<lambda>b. - createdAt b) (docs st))"
      by (rule newest_first_sorted)
    show "router_export f c n st =
               Inr \<lparr>content_type =
                      ''application/vnd.openxmlformats-officedocument.spreadsheetml.sheet'',
                    content_disposition =
                      ''attachment; filename=bookings_'' @ number_string n @ ''.xlsx'',
                    attachment =
                      \<lparr>creator = ''Appointment Booking System'', created = c,
                       sheet_name = ''Bookings'',
                       sheet_rows = worksheet f (sort_key (\<lambda>b. - createdAt b) (docs st))\<rparr>\<rparr>"
      by (rule router_export_up[OF that])
  qed
  show ?thesis
    apply (rule conjI[OF worksheet_layout])
    apply (rule conjI[OF l])
    apply (rule conjI[OF e])
    apply (rule conjI[OF r0])
    apply (rule impI)
    apply (erule r)
    done
qed

text \<open>The amended C7 at a collection of two records, exported at the time 5.\<close>

theorem export_rows_witness:
  "up \<lparr>docs = [\<lparr>oid = 0, name = ''Al'', email = ''a@b.c'', phone = ''0123456789'',
          date = ''d'', timeSlot = ''t'', createdAt = 1\<rparr>,
        \<lparr>oid = 1, name = ''Bo'', email = ''b@c.d'', phone = ''0123456789'',
          date = ''d'', timeSlot = ''t'', createdAt = 2\<rparr>], next_id = 2, up = True\<rparr>
   \<and> (\<exists>sorted_docs.
         mset sorted_docs =
           mset [\<lparr>oid = 0, name = ''Al'', email = ''a@b.c'', phone = ''0123456789'',
                  date = ''d'', timeSlot = ''t'', createdAt = 1\<rparr>,
                 \<lparr>oid = 1, name = ''Bo'', email = ''b@c.d'', phone = ''0123456789'',
                  date = ''d'', timeSlot = ''t'', createdAt = 2\<rparr>]
         \<and> sorted_wrt (\<lambda>a b. createdAt a \<ge> createdAt b) sorted_docs
         \<and> router_export (\<lambda>t. ''1 Jan 1970, 5:30 am'') 5 5
             \<lparr>docs = [\<lparr>oid = 0, name = ''Al'', email = ''a@b.c'', phone = ''0123456789'',
                 date = ''d'', timeSlot = ''t'', createdAt = 1\<rparr>,
               \<lparr>oid = 1, name = ''Bo'', email = ''b@c.d'', phone = ''0123456789'',
                 date = ''d'', timeSlot = ''t'', createdAt = 2\<rparr>], next_id = 2, up = True\<rparr>
           = Inr \<lparr>content_type =
                    ''application/vnd.openxmlformats-officedocument.spreadsheetml.sheet'',
                  content_disposition = ''attachment; filename=bookings_5.xlsx'',
                  attachment =
                    \<lparr>creator = ''Appointment Booking System'', created = 5,
                     sheet_name = ''Bookings'',
                     sheet_rows = worksheet (\<lambda>t. ''1 Jan 1970, 5:30 am'') sorted_docs\<rparr>\<rparr>)"
proof -
  let ?a = "\<lparr>oid = 0, name = ''Al'', email = ''a@b.c'', phone = ''0123456789'',
          date = ''d'', timeSlot = ''t'', createdAt = 1\<rparr>"
  let ?b = "\<lparr>oid = 1, name = ''Bo'', email = ''b@c.d'', phone = ''0123456789'',
          date = ''d'', timeSlot = ''t'', createdAt = 2\<rparr>"
  let ?st = "\<lparr>docs = [?a, ?b], next_id = 2, up = True\<rparr>"
  let ?f = "\<lambda>t::int. ''1 Jan 1970, 5:30 am''"
  have u: "up ?st" by simp
  have n: "''attachment; filename=bookings_'' @ number_string 5 @ ''.xlsx''
      = ''attachment; filename=bookings_5.xlsx''" by code_simp
  have d: "docs ?st = [?a, ?b]" by simp
  note t = export_rows[where f = ?f and c = 5 and n = 5 and st = ?st, THEN conjunct2,
      THEN conjunct2, THEN conjunct2, THEN conjunct2, THEN mp, OF u]
  show ?thesis
    using t u unfolding n d by (rule conjI[rotated])
qed

section \<open>Searching and sorting the table\<close>

lemma starts_with_prefix: "starts_with n h = prefix n h"
  by (induction n h rule: starts_with.induct) simp_all

lemma includes_str_sublist: "includes_str h n = sublist n h"
  by (induction h) (simp_all add: starts_with_prefix sublist_Cons_right)


text \<open>
  C8. With no search term, or an empty one, the filter returns the list it was given. With
  a term that is not empty it keeps, in their order, exactly the records where the
  lowercased term occurs in the lowercased name, email, date or time slot, or the term
  as typed occurs in the phone. The result is a new list; the one given is not changed.
\<close>

theorem filteredBookings_keeps:
  "filteredBookings bs None = bs
   \<and> filteredBookings bs (Some []) = bs
   \<and> filteredBookings bs (Some (c # cs)) =
       filter (\<lambda>b.
           sublist (toLowerCase (c # cs)) (toLowerCase (name b))
         \<or> sublist (toLowerCase (c # cs)) (toLowerCase (email b))
         \<or> sublist (c # cs) (phone b)
         \<or> sublist (toLowerCase (c # cs)) (toLowerCase (date b))
         \<or> sublist (toLowerCase (c # cs)) (toLowerCase (timeSlot b))) bs"
  by (simp add: filteredBookings_def falsy_def includes_str_sublist Let_def)

lemma compare_name_asc:
  "compare \<lparr>field = Name, direction = Asc\<rparr> a b \<le> 0
     \<longleftrightarrow> toLowerCase (name a) \<le> toLowerCase (name b)"
  by (auto simp: compare_def)

lemma insert_by_name_asc:
  "insert_by (compare \<lparr>field = Name, direction = Asc\<rparr>) x ys
     = insort_key (\<lambda>b. toLowerCase (name b)) x ys"
  by (induction ys) (simp_all add: compare_name_asc)

lemma array_sort_name_asc:
  "array_sort (compare \<lparr>field = Name, direction = Asc\<rparr>) xs
     = sort_key (\<lambda>b. toLowerCase (name b)) xs"
  unfolding array_sort_def sort_key_def
  by (induction xs) (simp_all add: insert_by_name_asc)


text \<open>
  C9. Sorting by name, ascending, returns a list that is already in ascending order of
  lowercased names as it is; so sorting twice is sorting once. The result is a
  rearrangement of the input in ascending order, records whose lowercased names are
  equal keep their relative order, and the comparator returns 0 on them.
\<close>

theorem sort_by_name_idempotent:
  "(sorted (map (\<lambda>b. toLowerCase (name b)) bs)
      \<longrightarrow> sortedBookings \<lparr>field = Name, direction = Asc\<rparr> bs = bs)
   \<and> sorted (map (\<lambda>b. toLowerCase (name b)) (sortedBookings \<lparr>field = Name, direction = Asc\<rparr> bs))
   \<and> mset (sortedBookings \<lparr>field = Name, direction = Asc\<rparr> bs) = mset bs
   \<and> sortedBookings \<lparr>field = Name, direction = Asc\<rparr>
        (sortedBookings \<lparr>field = Name, direction = Asc\<rparr> bs)
      = sortedBookings \<lparr>field = Name, direction = Asc\<rparr> bs
   \<and> filter (\<lambda>b. toLowerCase (name b) = k) (sortedBookings \<lparr>field = Name, direction = Asc\<rparr> bs)
      = filter (\<lambda>b. toLowerCase (name b) = k) bs
   \<and> (toLowerCase (name a) = toLowerCase (name b)
      \<longrightarrow> compare \<lparr>field = Name, direction = Asc\<rparr> a b = 0)"
proof -
  let ?k = "\<lambda>b. toLowerCase (name b)"
  have s: "sortedBookings \<lparr>field = Name, direction = Asc\<rparr> xs = sort_key ?k xs" for xs
    by (simp add: sortedBookings_def array_sort_name_asc)
  have 1: "sorted (map ?k bs) \<longrightarrow> sort_key ?k bs = bs"
    by (simp add: sort_key_id_if_sorted)
  have 2: "sorted (map ?k (sort_key ?k bs))" by (rule sorted_sort_key)
  have 3: "mset (sort_key ?k bs) = mset bs" by simp
  have 4: "sort_key ?k (sort_key ?k bs) = sort_key ?k bs"
    using 2 by (rule sort_key_id_if_sorted)
  have 5: "filter (\<lambda>b. ?k b = k) (sort_key ?k bs) = filter (\<lambda>b. ?k b = k) bs"
    by (rule sort_key_stable)
  have 6: "?k a = ?k b \<longrightarrow> compare \<lparr>field = Name, direction = Asc\<rparr> a b = 0"
    by (simp add: compare_def)
  show ?thesis unfolding s using 1 2 3 4 5 6 by (intro conjI)
qed


text \<open>C9 at a list in ascending order with two names that differ in case only.\<close>

theorem sort_by_name_idempotent_witness:
  "sorted (map (\<lambda>b. toLowerCase (name b))
      [\<lparr>oid = 0, name = ''al'', email = ''a@b.c'', phone = ''0123456789'', date = ''d'',
        timeSlot = ''t'', createdAt = 1\<rparr>,
       \<lparr>oid = 1, name = ''AL'', email = ''a@b.c'', phone = ''0123456789'', date = ''d'',
        timeSlot = ''t'', createdAt = 2\<rparr>,
       \<lparr>oid = 2, name = ''Bob'', email = ''a@b.c'', phone = ''0123456789'', date = ''d'',
        timeSlot = ''t'', createdAt = 3\<rparr>])
   \<and> sortedBookings \<lparr>field = Name, direction = Asc\<rparr>
      [\<lparr>oid = 0, name = ''al'', email = ''a@b.c'', phone = ''0123456789'', date = ''d'',
        timeSlot = ''t'', createdAt = 1\<rparr>,
       \<lparr>oid = 1, name = ''AL'', email = ''a@b.c'', phone = ''0123456789'', date = ''d'',
        timeSlot = ''t'', createdAt = 2\<rparr>,
       \<lparr>oid = 2, name = ''Bob'', email = ''a@b.c'', phone = ''0123456789'', date = ''d'',
        timeSlot = ''t'', createdAt = 3\<rparr>]
     = [\<lparr>oid = 0, name = ''al'', email = ''a@b.c'', phone = ''0123456789'', date = ''d'',
        timeSlot = ''t'', createdAt = 1\<rparr>,
       \<lparr>oid = 1, name = ''AL'', email = ''a@b.c'', phone = ''0123456789'', date = ''d'',
        timeSlot = ''t'', createdAt = 2\<rparr>,
       \<lparr>oid = 2, name = ''Bob'', email = ''a@b.c'', phone = ''0123456789'', date = ''d'',
        timeSlot = ''t'', createdAt = 3\<rparr>]
   \<and> compare \<lparr>field = Name, direction = Asc\<rparr>
       \<lparr>oid = 0, name = ''al'', email = ''a@b.c'', phone = ''0123456789'', date = ''d'',
        timeSlot = ''t'', createdAt = 1\<rparr>
       \<lparr>oid = 1, name = ''AL'', email = ''a@b.c'', phone = ''0123456789'', date = ''d'',
        timeSlot = ''t'', createdAt = 2\<rparr> = 0"
proof -
  let ?a = "\<lparr>oid = 0, name = ''al'', email = ''a@b.c'', phone = ''0123456789'', date = ''d'',
        timeSlot = ''t'', createdAt = 1\<rparr>"
  let ?b = "\<lparr>oid = 1, name = ''AL'', email = ''a@b.c'', phone = ''0123456789'', date = ''d'',
        timeSlot = ''t'', createdAt = 2\<rparr>"
  let ?c = "\<lparr>oid = 2, name = ''Bob'', email = ''a@b.c'', phone = ''0123456789'', date = ''d'',
        timeSlot = ''t'', createdAt = 3\<rparr>"
  have h: "sorted (map (\<lambda>b. toLowerCase (name b)) [?a, ?b, ?c])" by code_simp
  have e: "toLowerCase (name ?a) = toLowerCase (name ?b)" by code_simp
  note t = sort_by_name_idempotent[of "[?a, ?b, ?c]" _ ?a ?b]
  have 1: "sortedBookings \<lparr>field = Name, direction = Asc\<rparr> [?a, ?b, ?c] = [?a, ?b, ?c]"
    by (rule t[THEN conjunct1, THEN mp, OF h])
  have 2: "compare \<lparr>field = Name, direction = Asc\<rparr> ?a ?b = 0"
    by (rule t[THEN conjunct2, THEN conjunct2, THEN conjunct2, THEN conjunct2, THEN conjunct2,
          THEN mp, OF e])
  show ?thesis using h 1 2 by (intro conjI)
qed

end
